theory Spec2Isabelle
  imports Main "HOL-Library.AList"
begin

section \<open>JavaScript strings and errors\<close>

text \<open>
  Strings are lists of characters. \<open>startsWith\<close> and \<open>includesStr\<close> (the
  source's \<^verbatim>\<open>includes\<close>) are the methods of \<^verbatim>\<open>String.prototype\<close> that \<^verbatim>\<open>proxy.mjs\<close> calls. A thrown
  \<^verbatim>\<open>TypeError\<close> is a value of \<open>js_error\<close>.
\<close>

datatype js_error = TypeError

fun startsWith :: "string \<Rightarrow> string \<Rightarrow> bool" where
  "startsWith s [] = True"
| "startsWith [] (p # ps) = False"
| "startsWith (c # cs) (p # ps) = (c = p \<and> startsWith cs ps)"

fun includesStr :: "string \<Rightarrow> string \<Rightarrow> bool" where
  "includesStr [] n = startsWith [] n"
| "includesStr (c # cs) n = (startsWith (c # cs) n \<or> includesStr cs n)"

section \<open>Model mapping\<close>

text \<open>
  \<^verbatim>\<open>MODEL_MAP\<close> is an object literal, so \<^verbatim>\<open>MODEL_MAP[anthropicModel]\<close> reads
  an own property first and then walks the prototype chain to
  \<^verbatim>\<open>Object.prototype\<close>. The members of \<^verbatim>\<open>Object.prototype\<close> are functions (and,
  for \<^verbatim>\<open>__proto__\<close>, the prototype object): all truthy, none a string.
\<close>

definition MODEL_MAP :: "(string \<times> string) list" where
  "MODEL_MAP =
    [(''claude-sonnet-4-5-20250514'', ''claude-sonnet-4-5''),
     (''claude-sonnet-4-5'', ''claude-sonnet-4-5''),
     (''claude-opus-4-5-20250414'', ''claude-opus-4-6-thinking''),
     (''claude-opus-4-5'', ''claude-opus-4-6-thinking''),
     (''claude-sonnet-4-20250514'', ''claude-sonnet-4-5''),
     (''claude-sonnet-4-5-thinking'', ''claude-sonnet-4-5-thinking''),
     (''claude-opus-4-5-thinking'', ''claude-opus-4-6-thinking''),
     (''claude-opus-4-6-thinking'', ''claude-opus-4-6-thinking''),
     (''claude-opus-4-6'', ''claude-opus-4-6-thinking''),
     (''claude-haiku-3-5-20241022'', ''claude-sonnet-4-5''),
     (''claude-3-5-haiku-20241022'', ''claude-sonnet-4-5'')]"

definition objectPrototypeKeys :: "string list" where
  "objectPrototypeKeys =
    [''constructor'', ''hasOwnProperty'', ''isPrototypeOf'', ''propertyIsEnumerable'',
     ''toLocaleString'', ''toString'', ''valueOf'', ''__proto__'',
     ''__defineGetter__'', ''__defineSetter__'', ''__lookupGetter__'', ''__lookupSetter__'']"

text \<open>
  What \<^verbatim>\<open>mapModel\<close> can return: a backend model id (a string), or the member of
  \<^verbatim>\<open>Object.prototype\<close> found under the given key.
\<close>

datatype model_value = ModelId string | PrototypeMember string

definition readMODEL_MAP :: "string \<Rightarrow> model_value option" where
  "readMODEL_MAP k =
    (case map_of MODEL_MAP k of
       Some t \<Rightarrow> Some (ModelId t)
     | None \<Rightarrow> if k \<in> set objectPrototypeKeys then Some (PrototypeMember k) else None)"

definition mapModel :: "string \<Rightarrow> model_value" where
  "mapModel anthropicModel =
    (case readMODEL_MAP anthropicModel of
       Some v \<Rightarrow> v
     | None \<Rightarrow>
         if includesStr anthropicModel ''opus'' then ModelId ''claude-opus-4-6-thinking''
         else if includesStr anthropicModel ''sonnet'' then ModelId ''claude-sonnet-4-5-thinking''
         else ModelId ''claude-opus-4-6-thinking'')"

text \<open>
  \<^verbatim>\<open>modelId.includes("thinking")\<close>: a function or plain object has no
  \<^verbatim>\<open>includes\<close> method, so the call throws.
\<close>

fun isThinkingModel :: "model_value \<Rightarrow> js_error + bool" where
  "isThinkingModel (ModelId s) = Inr (includesStr s ''thinking'')"
| "isThinkingModel (PrototypeMember k) = Inl TypeError"

section \<open>Generation config\<close>

text \<open>
  Token counts are the integers among JavaScript's finite numbers (doubles); absent
  fields are \<open>None\<close>. \<^verbatim>\<open>a || b\<close> takes \<open>b\<close> when \<open>a\<close> is \<^verbatim>\<open>undefined\<close> or
  \<open>0\<close>. Scaling a double by 0.25 is exact, so \<^verbatim>\<open>Math.floor(n * 0.25)\<close> is
  \<open>n div 4\<close>, which rounds down; \<^verbatim>\<open>Math.min\<close> and \<^verbatim>\<open>Math.max\<close> are exact. The one
  operation that rounds is the sum \<^verbatim>\<open>thinkingBudget + 1024\<close>: \<open>toDouble\<close> is the
  double nearest to an integer (ties to the even significand of 53 bits), the
  integer itself below \<open>2^53\<close>; \<open>ulp a\<close> is the distance between the doubles
  around \<open>a\<close>.
\<close>

function ulp :: "int \<Rightarrow> int" where
  "ulp a = (if a < 2 ^ 53 then 1 else 2 * ulp (a div 2))"
  by pat_completeness auto
termination
  by (relation "measure nat") auto

declare ulp.simps [simp del]

definition toDouble :: "int \<Rightarrow> int" where
  "toDouble n =
    (let a = \<bar>n\<bar>; u = ulp a; q = a div u; r = a mod u;
         up = (2 * r > u \<or> (2 * r = u \<and> odd q))
     in sgn n * ((if up then q + 1 else q) * u))"

record generationConfig =
  maxOutputTokens :: int
  thinkingConfig :: "int option"  \<comment> \<open>the \<^verbatim>\<open>thinkingBudget\<close>; \<^verbatim>\<open>includeThoughts\<close> is always true\<close>

definition orElse :: "int option \<Rightarrow> int \<Rightarrow> int" where
  "orElse a b = (case a of None \<Rightarrow> b | Some n \<Rightarrow> if n = 0 then b else n)"

definition rawMaxTokens :: "int option \<Rightarrow> int" where
  "rawMaxTokens max_tokens = orElse max_tokens 16384"

definition dynamicBudget :: "int \<Rightarrow> int" where
  "dynamicBudget raw = min 10240 (max 1024 (raw div 4))"

definition thinkingBudget :: "int option \<Rightarrow> int \<Rightarrow> int" where
  "thinkingBudget clientBudget raw = orElse clientBudget (dynamicBudget raw)"

text \<open>
  The generation-config part of \<^verbatim>\<open>convertAnthropicToGoogle\<close>, from the request's
  \<^verbatim>\<open>model\<close>, \<^verbatim>\<open>max_tokens\<close> and \<^verbatim>\<open>thinking.budget_tokens\<close>.
\<close>

definition buildGenerationConfig ::
    "string \<Rightarrow> int option \<Rightarrow> int option \<Rightarrow> js_error + generationConfig" where
  "buildGenerationConfig model max_tokens budget_tokens =
    (let googleModel = mapModel model; raw = rawMaxTokens max_tokens in
     case isThinkingModel googleModel of
       Inl e \<Rightarrow> Inl e
     | Inr True \<Rightarrow>
         (let tb = thinkingBudget budget_tokens raw in
          Inr \<lparr>maxOutputTokens = max raw (toDouble (tb + 1024)), thinkingConfig = Some tb\<rparr>)
     | Inr False \<Rightarrow> Inr \<lparr>maxOutputTokens = raw, thinkingConfig = None\<rparr>)"

section \<open>JSON values\<close>

text \<open>
  A parsed JSON value. An object is its list of own properties in insertion order, with
  distinct keys, as \<^verbatim>\<open>JSON.parse\<close> builds it. Numbers are integers here: the
  proxy computes with no number of a schema or of a tool call's arguments, it only
  tests one for being zero and copies it.
\<close>

datatype json =
    JNull
  | JBool bool
  | JNum int
  | JStr string
  | JArr "json list"
  | JObj "(string \<times> json) list"

text \<open>
  JavaScript truthiness of a JSON value, and \<^verbatim>\<open>a || b\<close> on values that may be
  \<^verbatim>\<open>undefined\<close> (\<open>None\<close>).
\<close>

fun truthy :: "json \<Rightarrow> bool" where
  "truthy JNull = False"
| "truthy (JBool b) = b"
| "truthy (JNum n) = (n \<noteq> 0)"
| "truthy (JStr s) = (s \<noteq> [])"
| "truthy (JArr xs) = True"
| "truthy (JObj kvs) = True"

definition jsOr :: "json option \<Rightarrow> json option \<Rightarrow> json option" where
  "jsOr a b = (case a of Some v \<Rightarrow> if truthy v then a else b | None \<Rightarrow> b)"

section \<open>Message conversion and role alternation\<close>

text \<open>
  Client content blocks, by the \<^verbatim>\<open>type\<close> the code switches on. A field that may be
  missing is an option. \<^verbatim>\<open>JSON.stringify\<close> is a builtin of the language, not code of
  the proxy: the functions that call it take it as the parameter \<open>stringify\<close>.
\<close>

datatype block =
    TextBlock "string option"
  | ThinkingBlock
  | ImageBlock "string option" "string option"
  | ToolUseBlock string "json option" string
  | ToolResultBlock "string option" result_content
  | OtherBlock "json option" "json option"
and result_content =
    NoOutput
  | StrOutput string
  | BlocksOutput "block option list"
  | OtherOutput json

datatype msg_content =
    StringContent string
  | ArrayContent "block option list"
  | OtherContent

record message =
  msg_role :: string
  msg_content :: msg_content

datatype role = User | Model

datatype part =
    Text string
  | InlineData string string
  | FunctionCall string json string
  | FunctionResponse string "string option" string

record turn =
  role :: role
  parts :: "part list"

fun joinLines :: "string list \<Rightarrow> string" where
  "joinLines [] = []"
| "joinLines [t] = t"
| "joinLines (t # u # ts) = t @ ''\<newline>'' @ joinLines (u # ts)"

definition strOrElse :: "string \<Rightarrow> string \<Rightarrow> string" where
  "strOrElse a b = (if a = [] then b else a)"

fun isTextBlock :: "block option \<Rightarrow> bool" where
  "isTextBlock (Some (TextBlock t)) = True"
| "isTextBlock b = False"

fun blockText :: "block option \<Rightarrow> string" where
  "blockText (Some (TextBlock (Some t))) = t"
| "blockText b = []"

fun extractText :: "(json \<Rightarrow> string) \<Rightarrow> result_content \<Rightarrow> string" where
  "extractText stringify NoOutput = ''(no output)''"
| "extractText stringify (StrOutput s) = strOrElse s ''(empty)''"
| "extractText stringify (BlocksOutput bs) =
     strOrElse (joinLines (map blockText (filter isTextBlock bs))) ''(empty)''"
| "extractText stringify (OtherOutput j) = stringify j"

fun isToolResult :: "block option \<Rightarrow> bool" where
  "isToolResult (Some (ToolResultBlock i c)) = True"
| "isToolResult b = False"

fun toolPart :: "(json \<Rightarrow> string) \<Rightarrow> block option \<Rightarrow> part list" where
  "toolPart stringify (Some (ToolResultBlock i c)) =
     [FunctionResponse (strOrElse (case i of None \<Rightarrow> [] | Some s \<Rightarrow> s) ''unknown'') i
        (extractText stringify c)]"
| "toolPart stringify b = []"

fun hasText :: "block option \<Rightarrow> bool" where
  "hasText (Some (TextBlock (Some t))) = (t \<noteq> [])"
| "hasText b = False"

text \<open>
  The \<^verbatim>\<open>switch (block.type)\<close> of the regular conversion: the parts one block pushes.
  A content array with a \<^verbatim>\<open>tool_result\<close> block never reaches the switch (the message
  takes the tool-result branch), so that case is empty here.
\<close>

fun blockParts :: "(json \<Rightarrow> string) \<Rightarrow> block option \<Rightarrow> part list" where
  "blockParts stringify None = []"
| "blockParts stringify (Some (TextBlock t)) =
     (case t of None \<Rightarrow> [] | Some s \<Rightarrow> if s \<noteq> [] then [Text s] else [])"
| "blockParts stringify (Some ThinkingBlock) = []"
| "blockParts stringify (Some (ImageBlock media_type dat)) =
     [InlineData (case media_type of None \<Rightarrow> ''image/png'' | Some m \<Rightarrow> strOrElse m ''image/png'')
                 (case dat of None \<Rightarrow> [] | Some d \<Rightarrow> d)]"
| "blockParts stringify (Some (ToolUseBlock name input ident)) =
     [FunctionCall name (case jsOr input (Some (JObj [])) of Some a \<Rightarrow> a | None \<Rightarrow> JObj [])
        ident]"
| "blockParts stringify (Some (ToolResultBlock i c)) = []"
| "blockParts stringify (Some (OtherBlock text content)) =
     (case jsOr text content of
        None \<Rightarrow> []
      | Some txt \<Rightarrow>
          if truthy txt then [Text (case txt of JStr s \<Rightarrow> s | _ \<Rightarrow> stringify txt)] else [])"

fun validPart :: "part \<Rightarrow> bool" where
  "validPart (Text t) = (t \<noteq> [])"
| "validPart p = True"

definition regularParts :: "(json \<Rightarrow> string) \<Rightarrow> msg_content \<Rightarrow> part list" where
  "regularParts stringify c =
    (let parts = (case c of
                    StringContent s \<Rightarrow> if s \<noteq> [] then [Text s] else []
                  | ArrayContent bs \<Rightarrow> concat (map (blockParts stringify) bs)
                  | OtherContent \<Rightarrow> []);
         sanitizedParts = filter validPart parts
     in if sanitizedParts = [] then [Text ''...''] else sanitizedParts)"

text \<open>One iteration of the message loop: the entries it pushes onto \<^verbatim>\<open>rawContents\<close>.\<close>

definition convertMessage :: "(json \<Rightarrow> string) \<Rightarrow> message option \<Rightarrow> turn list" where
  "convertMessage stringify m =
    (case m of
       None \<Rightarrow> []
     | Some msg \<Rightarrow>
         (let r = (if msg_role msg = ''assistant'' then Model else User);
              toolResults = (case msg_content msg of
                               ArrayContent bs \<Rightarrow> filter isToolResult bs | _ \<Rightarrow> [])
          in if toolResults \<noteq> [] then
               (let textBlocks = (case msg_content msg of
                                    ArrayContent bs \<Rightarrow> filter hasText bs | _ \<Rightarrow> [])
                in \<lparr>role = User, parts = concat (map (toolPart stringify) toolResults)\<rparr>
                   # (if textBlocks \<noteq> []
                      then [\<lparr>role = User, parts = map (\<lambda>b. Text (blockText b)) textBlocks\<rparr>]
                      else []))
             else [\<lparr>role = r, parts = regularParts stringify (msg_content msg)\<rparr>]))"

fun rawContents :: "(json \<Rightarrow> string) \<Rightarrow> message option list \<Rightarrow> turn list" where
  "rawContents stringify [] = []"
| "rawContents stringify (m # ms) = convertMessage stringify m @ rawContents stringify ms"

text \<open>
  The merge loop. \<open>mergeStep\<close> is its body: \<^verbatim>\<open>prev\<close> is the last element of
  \<^verbatim>\<open>contents\<close>, absent when \<^verbatim>\<open>contents\<close> is empty.
\<close>

definition mergeStep :: "turn list \<Rightarrow> turn \<Rightarrow> turn list" where
  "mergeStep contents entry =
    (if contents \<noteq> [] \<and> role (last contents) = role entry
     then butlast contents @ [(last contents)\<lparr>parts := parts (last contents) @ parts entry\<rparr>]
     else contents @ [entry])"

fun mergeLoop :: "turn list \<Rightarrow> turn list \<Rightarrow> turn list" where
  "mergeLoop contents [] = contents"
| "mergeLoop contents (entry # rest) = mergeLoop (mergeStep contents entry) rest"

definition convertMessages :: "(json \<Rightarrow> string) \<Rightarrow> message option list \<Rightarrow> turn list" where
  "convertMessages stringify messages = mergeLoop [] (rawContents stringify messages)"

text \<open>No two neighbours of a turn list have the same role.\<close>

fun alternating :: "turn list \<Rightarrow> bool" where
  "alternating [] = True"
| "alternating [t] = True"
| "alternating (t # u # ts) = (role t \<noteq> role u \<and> alternating (u # ts))"

section \<open>Endpoint racing\<close>

text \<open>
  What \<^verbatim>\<open>fetch\<close> gives for one endpoint: a response with its HTTP status and body
  text, or a rejection (the connection or the body read fails). \<open>net\<close> maps an
  endpoint to what its request meets. \<^verbatim>\<open>r.ok\<close> holds for a status from 200 to 299.
  \<^verbatim>\<open>fetchOne\<close> throws \<^verbatim>\<open>{status, errText, ep}\<close> for a response that is not ok.
\<close>

datatype fetched = Response int string | FetchFailed

datatype settled = Fulfilled int string | Rejected "(int \<times> string) option"

definition ok :: "int \<Rightarrow> bool" where
  "ok status = (200 \<le> status \<and> status \<le> 299)"

definition fetchOne :: "(string \<Rightarrow> fetched) \<Rightarrow> string \<Rightarrow> settled" where
  "fetchOne net ep =
    (case net ep of
       Response status errText \<Rightarrow>
         if ok status then Fulfilled status errText else Rejected (Some (status, errText))
     | FetchFailed \<Rightarrow> Rejected None)"

definition PROD_EP :: string where
  "PROD_EP = ''https://cloudcode-pa.googleapis.com''"

definition SANDBOX_EP :: string where
  "SANDBOX_EP = ''https://daily-cloudcode-pa.sandbox.googleapis.com''"

definition ENDPOINTS :: "string list" where
  "ENDPOINTS = [PROD_EP, SANDBOX_EP]"

text \<open>
  The two messages of an \<^verbatim>\<open>overloaded_error\<close> are fixed texts, chosen by the status:
  \<open>RateLimited\<close> for 429, \<open>Unavailable\<close> for 503. An \<^verbatim>\<open>api_error\<close> carries its
  message. The handler either goes on with a response (\<^verbatim>\<open>googleResp\<close>), or answers
  with a status and an error body, or throws.
\<close>

datatype overloaded_message = RateLimited | Unavailable

datatype error_body = overloaded_error overloaded_message | api_error string

datatype resolution =
    GoogleResp int string
  | ErrorReply int error_body
  | Thrown js_error

fun isFulfilled :: "settled \<Rightarrow> bool" where
  "isFulfilled (Fulfilled status body) = True"
| "isFulfilled (Rejected reason) = False"

text \<open>
  \<^verbatim>\<open>Promise.allSettled(ENDPOINTS.map(fetchOne))\<close> and the selection after it. With no
  endpoint at all, \<^verbatim>\<open>results[0].reason\<close> reads a property of \<^verbatim>\<open>undefined\<close>.
\<close>

definition resolveRace :: "(string \<Rightarrow> fetched) \<Rightarrow> string list \<Rightarrow> resolution" where
  "resolveRace net endpoints =
    (let results = map (fetchOne net) endpoints in
     case find isFulfilled results of
       Some (Fulfilled status body) \<Rightarrow> GoogleResp status body
     | _ \<Rightarrow>
        (case results of
           [] \<Rightarrow> Thrown TypeError
         | firstErr # others \<Rightarrow>
            (case firstErr of
               Rejected (Some (status, errText)) \<Rightarrow>
                 if status = 429 \<or> status = 503
                 then ErrorReply 529
                        (overloaded_error (if status = 429 then RateLimited else Unavailable))
                 else ErrorReply (if status = 400 then 400 else 500)
                        (api_error (strOrElse (take 300 errText) ''All endpoints failed''))
             | _ \<Rightarrow> ErrorReply 500 (api_error ''All endpoints failed''))))"

text \<open>An example network: every endpoint answers 500 with an empty body.\<close>

definition emptyFailure :: "string \<Rightarrow> fetched" where
  "emptyFailure ep = Response 500 []"

text \<open>A candidate succeeded: its request met a response with an ok status.\<close>

fun succeeded :: "fetched \<Rightarrow> bool" where
  "succeeded (Response status body) = ok status"
| "succeeded FetchFailed = False"

section \<open>Backend events and client events\<close>

text \<open>
  One backend part, with the fields the translators read: \<^verbatim>\<open>text\<close>,
  \<^verbatim>\<open>thought\<close> (true exactly when the field is \<^verbatim>\<open>true\<close>), \<^verbatim>\<open>thoughtSignature\<close> and
  \<^verbatim>\<open>functionCall\<close>. A chunk is one line of the backend's event stream: \<open>None\<close> when
  the line is skipped (no \<^verbatim>\<open>data:\<close> prefix, empty, not JSON, or without
  \<^verbatim>\<open>response\<close>), else the response. \<open>resp_parts\<close> is
  \<^verbatim>\<open>candidates?.[0]?.content?.parts\<close>.
\<close>

record functionCall =
  fc_name :: string
  fc_args :: "json option"

record gpart =
  part_text :: "string option"
  part_thought :: bool
  part_thoughtSignature :: "string option"
  part_functionCall :: "functionCall option"

record usageMetadata =
  promptTokenCount :: "int option"
  candidatesTokenCount :: "int option"
  thoughtsTokenCount :: "int option"

record response =
  resp_parts :: "gpart list option"
  resp_finishReason :: "string option"
  resp_usageMetadata :: "usageMetadata option"

type_synonym chunk = "response option"

datatype content_block = text_block string | tool_use_block string string json

datatype delta = text_delta string | input_json_delta string

datatype stop_reason = end_turn | tool_use

datatype event =
    message_start string
  | content_block_start nat content_block
  | content_block_delta nat delta
  | content_block_stop nat
  | message_delta stop_reason int
  | message_stop

definition truthyStr :: "string option \<Rightarrow> bool" where
  "truthyStr s = (case s of None \<Rightarrow> False | Some t \<Rightarrow> t \<noteq> [])"

definition argsOrEmpty :: "functionCall \<Rightarrow> json" where
  "argsOrEmpty fc = (case jsOr (fc_args fc) (Some (JObj [])) of Some a \<Rightarrow> a | None \<Rightarrow> JObj [])"

section \<open>Stream translator\<close>

text \<open>
  The state of \<^verbatim>\<open>streamGoogleToAnthropic\<close>: its local variables, the events written
  to the client so far, and the number of tool ids generated so far. A tool id is built
  from the clock and a random number; \<open>toolId k\<close> stands for the id the \<open>k\<close>-th
  generation gives.
\<close>

record stream_state =
  contentIndex :: nat
  started :: bool
  inputTokens :: int
  outputTokens :: int
  written :: "event list"
  generated :: nat

definition emit :: "event \<Rightarrow> stream_state \<Rightarrow> stream_state" where
  "emit e s = s\<lparr>written := written s @ [e]\<rparr>"

definition textStep :: "string \<Rightarrow> stream_state \<Rightarrow> stream_state" where
  "textStep t s =
    (let s1 = (if \<not> started s
               then (emit (content_block_start (contentIndex s) (text_block [])) s)
                      \<lparr>started := True\<rparr>
               else s)
     in emit (content_block_delta (contentIndex s1) (text_delta t)) s1)"

definition callStep ::
    "(json \<Rightarrow> string) \<Rightarrow> (nat \<Rightarrow> string) \<Rightarrow> functionCall option \<Rightarrow> stream_state \<Rightarrow> stream_state"
where
  "callStep stringify toolId call s =
    (case call of
       None \<Rightarrow> s
     | Some fc \<Rightarrow>
        (let s1 = (if started s
                   then (emit (content_block_stop (contentIndex s)) s)
                          \<lparr>contentIndex := contentIndex s + 1, started := False\<rparr>
                   else s);
             i = contentIndex s1;
             s2 = emit (content_block_start i
                          (tool_use_block (toolId (generated s1)) (fc_name fc) (JObj []))) s1;
             s3 = emit (content_block_delta i (input_json_delta (stringify (argsOrEmpty fc)))) s2;
             s4 = emit (content_block_stop i) s3
         in s4\<lparr>contentIndex := i + 1, generated := generated s1 + 1\<rparr>))"

text \<open>
  The body of the loop over parts. Both \<^verbatim>\<open>continue\<close> statements leave the part as a
  whole, its function call included.
\<close>

definition processPart ::
    "(json \<Rightarrow> string) \<Rightarrow> (nat \<Rightarrow> string) \<Rightarrow> stream_state \<Rightarrow> gpart \<Rightarrow> stream_state" where
  "processPart stringify toolId s part =
    (if truthyStr (part_thoughtSignature part) \<and> \<not> truthyStr (part_text part) then s
     else case part_text part of
            Some t \<Rightarrow>
              if part_thought part then s
              else callStep stringify toolId (part_functionCall part) (textStep t s)
          | None \<Rightarrow> callStep stringify toolId (part_functionCall part) s)"

fun processParts ::
    "(json \<Rightarrow> string) \<Rightarrow> (nat \<Rightarrow> string) \<Rightarrow> stream_state \<Rightarrow> gpart list \<Rightarrow> stream_state" where
  "processParts stringify toolId s [] = s"
| "processParts stringify toolId s (part # rest) =
     processParts stringify toolId (processPart stringify toolId s part) rest"

definition usageStep :: "usageMetadata option \<Rightarrow> stream_state \<Rightarrow> stream_state" where
  "usageStep um s =
    (case um of
       None \<Rightarrow> s
     | Some u \<Rightarrow> s\<lparr>inputTokens := orElse (promptTokenCount u) 0,
                    outputTokens := orElse (candidatesTokenCount u) 0
                                    + orElse (thoughtsTokenCount u) 0\<rparr>)"

definition processChunk ::
    "(json \<Rightarrow> string) \<Rightarrow> (nat \<Rightarrow> string) \<Rightarrow> stream_state \<Rightarrow> chunk \<Rightarrow> stream_state" where
  "processChunk stringify toolId s chunk =
    (case chunk of
       None \<Rightarrow> s
     | Some resp \<Rightarrow>
         usageStep (resp_usageMetadata resp)
           (case resp_parts resp of
              None \<Rightarrow> s
            | Some ps \<Rightarrow> processParts stringify toolId s ps))"

fun processChunks ::
    "(json \<Rightarrow> string) \<Rightarrow> (nat \<Rightarrow> string) \<Rightarrow> stream_state \<Rightarrow> chunk list \<Rightarrow> stream_state" where
  "processChunks stringify toolId s [] = s"
| "processChunks stringify toolId s (chunk # rest) =
     processChunks stringify toolId (processChunk stringify toolId s chunk) rest"

text \<open>
  The closing sequence, run when the stream ends and also after a read error.
  \<^verbatim>\<open>started\<close> is not reset when the last block is closed here.
\<close>

definition finish :: "stream_state \<Rightarrow> stream_state" where
  "finish s =
    (let s1 = (if started s then emit (content_block_stop (contentIndex s)) s else s);
         hasToolUse = (contentIndex s1 > (if started s1 then 1 else 0))
     in emit message_stop
          (emit (message_delta (if hasToolUse then tool_use else end_turn) (outputTokens s1))
             s1))"

definition streamStart :: "string \<Rightarrow> stream_state" where
  "streamStart anthropicModel =
    \<lparr>contentIndex = 0, started = False, inputTokens = 0, outputTokens = 0,
     written = [message_start anthropicModel], generated = 0\<rparr>"

text \<open>The events the client receives for the chunks read before the end or an error.\<close>

definition streamGoogleToAnthropic ::
    "(json \<Rightarrow> string) \<Rightarrow> (nat \<Rightarrow> string) \<Rightarrow> string \<Rightarrow> chunk list \<Rightarrow> event list" where
  "streamGoogleToAnthropic stringify toolId anthropicModel chunks =
    written (finish (processChunks stringify toolId (streamStart anthropicModel) chunks))"

text \<open>
  The client protocol as an automaton over the events: \<^verbatim>\<open>message_start\<close> first; then
  blocks, each opened at the next free index (from 0), fed deltas at that index, and
  stopped at that index before another opens; then \<^verbatim>\<open>message_delta\<close> while no block
  is open; then \<^verbatim>\<open>message_stop\<close>. \<open>None\<close> is a violation.
\<close>

datatype phase = Init | Blocks nat bool | Closing | Done

fun protocolStep :: "phase option \<Rightarrow> event \<Rightarrow> phase option" where
  "protocolStep (Some Init) (message_start m) = Some (Blocks 0 False)"
| "protocolStep (Some (Blocks n False)) (content_block_start i b) =
     (if i = n then Some (Blocks n True) else None)"
| "protocolStep (Some (Blocks n True)) (content_block_delta i d) =
     (if i = n then Some (Blocks n True) else None)"
| "protocolStep (Some (Blocks n True)) (content_block_stop i) =
     (if i = n then Some (Blocks (Suc n) False) else None)"
| "protocolStep (Some (Blocks n False)) (message_delta r t) = Some Closing"
| "protocolStep (Some Closing) message_stop = Some Done"
| "protocolStep p e = None"

definition wellFormed :: "event list \<Rightarrow> bool" where
  "wellFormed events = (foldl protocolStep (Some Init) events = Some Done)"

fun isToolStart :: "event \<Rightarrow> bool" where
  "isToolStart (content_block_start i (tool_use_block ident name input)) = True"
| "isToolStart e = False"

text \<open>
  The invariant of the stream loop: the protocol automaton, run over the events written
  so far, is in the block phase at the translator's own index and open flag.
\<close>

definition tracked :: "stream_state \<Rightarrow> bool" where
  "tracked s =
    (foldl protocolStep (Some Init) (written s) = Some (Blocks (contentIndex s) (started s)))"

section \<open>Batch translator\<close>

record batch_state =
  content :: "content_block list"
  stopReason :: stop_reason
  batch_inputTokens :: int
  batch_outputTokens :: int
  batch_generated :: nat

text \<open>
  \<^verbatim>\<open>content.find(b => b.type === "text")\<close>: the text goes to the first text block,
  or becomes a new last block when there is none.
\<close>

fun addText :: "string \<Rightarrow> content_block list \<Rightarrow> content_block list" where
  "addText t [] = [text_block t]"
| "addText t (text_block u # bs) = text_block (u @ t) # bs"
| "addText t (tool_use_block i n a # bs) = tool_use_block i n a # addText t bs"

definition batchPart :: "(nat \<Rightarrow> string) \<Rightarrow> batch_state \<Rightarrow> gpart \<Rightarrow> batch_state" where
  "batchPart toolId s part =
    (let s1 = (case part_text part of
                 Some t \<Rightarrow> if \<not> truthyStr (part_thoughtSignature part)
                           then s\<lparr>content := addText t (content s)\<rparr> else s
               | None \<Rightarrow> s)
     in case part_functionCall part of
          None \<Rightarrow> s1
        | Some fc \<Rightarrow>
            s1\<lparr>content := content s1
                  @ [tool_use_block (toolId (batch_generated s1)) (fc_name fc) (argsOrEmpty fc)],
               batch_generated := batch_generated s1 + 1\<rparr>)"

fun batchParts :: "(nat \<Rightarrow> string) \<Rightarrow> batch_state \<Rightarrow> gpart list \<Rightarrow> batch_state" where
  "batchParts toolId s [] = s"
| "batchParts toolId s (part # rest) = batchParts toolId (batchPart toolId s part) rest"

definition batchEvent :: "(nat \<Rightarrow> string) \<Rightarrow> batch_state \<Rightarrow> chunk \<Rightarrow> batch_state" where
  "batchEvent toolId s event =
    (case event of
       None \<Rightarrow> s
     | Some resp \<Rightarrow>
        (let s1 = (case resp_parts resp of
                     None \<Rightarrow> s
                   | Some ps \<Rightarrow>
                       (let s' = batchParts toolId s ps
                        in if resp_finishReason resp = Some ''STOP''
                           then s'\<lparr>stopReason := end_turn\<rparr> else s'))
         in case resp_usageMetadata resp of
              None \<Rightarrow> s1
            | Some u \<Rightarrow> s1\<lparr>batch_inputTokens := orElse (promptTokenCount u) 0,
                           batch_outputTokens := orElse (candidatesTokenCount u) 0
                                                 + orElse (thoughtsTokenCount u) 0\<rparr>))"

fun batchEvents :: "(nat \<Rightarrow> string) \<Rightarrow> batch_state \<Rightarrow> chunk list \<Rightarrow> batch_state" where
  "batchEvents toolId s [] = s"
| "batchEvents toolId s (event # rest) = batchEvents toolId (batchEvent toolId s event) rest"

fun isToolUse :: "content_block \<Rightarrow> bool" where
  "isToolUse (tool_use_block i n a) = True"
| "isToolUse (text_block t) = False"

record anthropic_message =
  msg_model :: string
  msg_blocks :: "content_block list"
  msg_stop_reason :: stop_reason
  msg_input_tokens :: int
  msg_output_tokens :: int

definition convertGoogleSSEToAnthropicStream ::
    "(nat \<Rightarrow> string) \<Rightarrow> chunk list \<Rightarrow> string \<Rightarrow> anthropic_message" where
  "convertGoogleSSEToAnthropicStream toolId events anthropicModel =
    (let s = batchEvents toolId
               \<lparr>content = [], stopReason = end_turn, batch_inputTokens = 0,
                batch_outputTokens = 0, batch_generated = 0\<rparr> events;
         s1 = (if list_ex isToolUse (content s) then s\<lparr>stopReason := tool_use\<rparr> else s);
         s2 = (if content s1 = [] then s1\<lparr>content := [text_block []]\<rparr> else s1)
     in \<lparr>msg_model = anthropicModel, msg_blocks = content s2, msg_stop_reason = stopReason s2,
         msg_input_tokens = batch_inputTokens s2, msg_output_tokens = batch_outputTokens s2\<rparr>)"

section \<open>Schema normalizer\<close>

text \<open>
  A tool's \<^verbatim>\<open>input_schema\<close> is any JSON value. \<^verbatim>\<open>typeof v === "object"\<close> holds for
  \<^verbatim>\<open>null\<close>, arrays and objects. \<open>ownEntries\<close> is \<^verbatim>\<open>Object.entries\<close> (and the
  properties an object spread copies) of a non-null object: an array's entries are its
  elements under their indices, written in decimal. \<open>getProp\<close> reads a property that
  only an object can own. Every object of this model has the default prototype, which
  has none of the properties the normalizer reads.
\<close>

definition ALLOWED_SCHEMA_FIELDS :: "string list" where
  "ALLOWED_SCHEMA_FIELDS =
    [''type'', ''description'', ''properties'', ''required'', ''items'', ''enum'', ''nullable'']"

definition truthyOpt :: "json option \<Rightarrow> bool" where
  "truthyOpt v = (case v of None \<Rightarrow> False | Some j \<Rightarrow> truthy j)"

fun isObjectType :: "json \<Rightarrow> bool" where
  "isObjectType JNull = True"
| "isObjectType (JArr xs) = True"
| "isObjectType (JObj kvs) = True"
| "isObjectType v = False"

definition digitChar :: "nat \<Rightarrow> char" where
  "digitChar d = ''0123456789'' ! d"

function showNat :: "nat \<Rightarrow> string" where
  "showNat n = (if n < 10 then [digitChar n] else showNat (n div 10) @ [digitChar (n mod 10)])"
  by pat_completeness auto
termination
  by (relation "measure id") auto

declare showNat.simps [simp del]

fun ownEntries :: "json \<Rightarrow> (string \<times> json) list" where
  "ownEntries (JObj kvs) = kvs"
| "ownEntries (JArr xs) = zip (map showNat [0..<length xs]) xs"
| "ownEntries v = []"

fun getProp :: "json \<Rightarrow> string \<Rightarrow> json option" where
  "getProp (JObj kvs) k = map_of kvs k"
| "getProp v k = None"

text \<open>
  \<^verbatim>\<open>stripDollarSchema\<close>: every key that starts with \<^verbatim>\<open>$\<close> is dropped, at every
  level of objects and arrays. The copy is built by \<^verbatim>\<open>clean[key] = ...\<close>, and for the
  key \<^verbatim>\<open>__proto__\<close> that assignment is the prototype setter, not a new property:
  with a primitive value it does nothing, with \<^verbatim>\<open>null\<close> it removes the prototype
  (which no later read can tell from the default one), so in both cases the entry is
  dropped. With an object or array value the copy gets that value as its prototype
  and inherits its properties; objects with a prototype of their own are outside this
  model, and the result is \<open>None\<close>.
\<close>

fun stripDollarSchema :: "json \<Rightarrow> json option" where
  "stripDollarSchema (JArr xs) = map_option JArr (those (map stripDollarSchema xs))"
| "stripDollarSchema (JObj kvs) =
     map_option (\<lambda>kept. JObj (concat kept))
       (those (map (\<lambda>kv. if startsWith (fst kv) ''$'' then Some []
                            else if fst kv = ''__proto__'' then
                              (if isObjectType (snd kv) \<and> snd kv \<noteq> JNull then None
                               else Some [])
                            else (case stripDollarSchema (snd kv) of
                                    None \<Rightarrow> None
                                  | Some v \<Rightarrow> Some [(fst kv, v)]))
                   kvs))"
| "stripDollarSchema v = Some v"

text \<open>
  A schema in which no object has a member named \<^verbatim>\<open>__proto__\<close>, at any depth.
\<close>

fun protoFree :: "json \<Rightarrow> bool" where
  "protoFree (JArr xs) = list_all protoFree xs"
| "protoFree (JObj kvs) = list_all (\<lambda>kv. fst kv \<noteq> ''__proto__'' \<and> protoFree (snd kv)) kvs"
| "protoFree v = True"

text \<open>
  A loop that calls a function which may throw on every element of a list, in order:
  the first error ends it.
\<close>

fun traverse :: "('a \<Rightarrow> js_error + 'b) \<Rightarrow> 'a list \<Rightarrow> js_error + 'b list" where
  "traverse f [] = Inr []"
| "traverse f (x # xs) =
     (case f x of
        Inl e \<Rightarrow> Inl e
      | Inr y \<Rightarrow> (case traverse f xs of Inl e \<Rightarrow> Inl e | Inr ys \<Rightarrow> Inr (y # ys)))"

lemma traverse_cong [fundef_cong]:
  "xs = ys \<Longrightarrow> (\<And>x. x \<in> set ys \<Longrightarrow> f x = g x) \<Longrightarrow> traverse f xs = traverse g ys"
  by (induction ys arbitrary: xs) (simp_all cong: sum.case_cong)

text \<open>
  The union step of \<^verbatim>\<open>sanitizeSchema\<close>. The union is \<^verbatim>\<open>anyOf\<close> when that is truthy,
  else \<^verbatim>\<open>oneOf\<close>; calling \<^verbatim>\<open>.filter\<close> on a truthy value that is not an array
  throws. \<open>withDescription\<close> is the spread
  \<^verbatim>\<open>{ ...v, ...(working.description ? { description: working.description } : {}) }\<close>.
\<close>

definition isVariant :: "json \<Rightarrow> bool" where
  "isVariant v = (truthy v \<and> isObjectType v)"

definition isSpecific :: "json \<Rightarrow> bool" where
  "isSpecific v = (truthyOpt (getProp v ''enum'') \<or> truthyOpt (getProp v ''properties''))"

definition withDescription :: "(string \<times> json) list \<Rightarrow> json \<Rightarrow> (string \<times> json) list" where
  "withDescription working v =
    (case map_of working ''description'' of
       Some d \<Rightarrow> if truthy d then AList.update ''description'' d (ownEntries v) else ownEntries v
     | None \<Rightarrow> ownEntries v)"

definition flattenUnion :: "(string \<times> json) list \<Rightarrow> js_error + (string \<times> json) list" where
  "flattenUnion working =
    (case jsOr (map_of working ''anyOf'') (map_of working ''oneOf'') of
       None \<Rightarrow> Inr working
     | Some u \<Rightarrow>
         if \<not> truthy u then Inr working
         else (case u of
                 JArr vs \<Rightarrow>
                   (let variants = filter isVariant vs in
                    if length variants = 1 then Inr (withDescription working (hd variants))
                    else if length variants > 1 then
                      (case find isSpecific variants of
                         Some specific \<Rightarrow> Inr (withDescription working specific)
                       | None \<Rightarrow> Inr (withDescription working (hd variants)))
                    else Inr working)
               | _ \<Rightarrow> Inl TypeError))"

text \<open>
  The allow-list loop of \<^verbatim>\<open>sanitizeSchema\<close>: \<open>keepField\<close> is its body for one entry
  (the entries it adds to \<^verbatim>\<open>clean\<close>), with the recursive call as the parameter
  \<open>sanitize\<close>. \<^verbatim>\<open>Object.entries(null)\<close> throws.
\<close>

definition keepField ::
    "(json \<Rightarrow> js_error + json) \<Rightarrow> string \<times> json \<Rightarrow> js_error + (string \<times> json) list" where
  "keepField sanitize kv =
    (if fst kv \<notin> set ALLOWED_SCHEMA_FIELDS then Inr []
     else if fst kv = ''properties'' \<and> isObjectType (snd kv) then
       (if snd kv = JNull then Inl TypeError
        else case traverse (\<lambda>p. case sanitize (snd p) of
                                   Inl e \<Rightarrow> Inl e
                                 | Inr v \<Rightarrow> Inr (fst p, v))
                    (ownEntries (snd kv)) of
               Inl e \<Rightarrow> Inl e
             | Inr ps \<Rightarrow> Inr [(fst kv, JObj ps)])
     else if fst kv = ''items'' then
       (case sanitize (snd kv) of Inl e \<Rightarrow> Inl e | Inr v \<Rightarrow> Inr [(fst kv, v)])
     else Inr [kv])"

definition keepAllowed ::
    "(json \<Rightarrow> js_error + json) \<Rightarrow> (string \<times> json) list \<Rightarrow> js_error + (string \<times> json) list" where
  "keepAllowed sanitize working =
    (case traverse (keepField sanitize) working of
       Inl e \<Rightarrow> Inl e
     | Inr added \<Rightarrow> Inr (concat added))"

text \<open>The values the loop hands to the recursive call, for the termination proof.\<close>

definition nested :: "(string \<times> json) list \<Rightarrow> json set" where
  "nested working =
    {v. \<exists>kv \<in> set working. (fst kv = ''items'' \<and> v = snd kv)
                          \<or> (fst kv = ''properties'' \<and> v \<in> snd ` set (ownEntries (snd kv)))}"

lemma keepField_cong:
  assumes "\<And>v. v \<in> nested [kv] \<Longrightarrow> f v = g v"
  shows "keepField f kv = keepField g kv"
proof -
  have items: "fst kv = ''items'' \<Longrightarrow> f (snd kv) = g (snd kv)"
    by (rule assms) (simp add: nested_def)
  have props: "fst kv = ''properties'' \<Longrightarrow>
      traverse (\<lambda>p. case f (snd p) of Inl e \<Rightarrow> Inl e | Inr v \<Rightarrow> Inr (fst p, v))
        (ownEntries (snd kv))
    = traverse (\<lambda>p. case g (snd p) of Inl e \<Rightarrow> Inl e | Inr v \<Rightarrow> Inr (fst p, v))
        (ownEntries (snd kv))"
  proof (rule traverse_cong [OF refl])
    fix p
    assume "fst kv = ''properties''" and "p \<in> set (ownEntries (snd kv))"
    then have "f (snd p) = g (snd p)" by (intro assms) (auto simp: nested_def)
    then show "(case f (snd p) of Inl e \<Rightarrow> Inl e | Inr v \<Rightarrow> Inr (fst p, v))
        = (case g (snd p) of Inl e \<Rightarrow> Inl e | Inr v \<Rightarrow> Inr (fst p, v))"
      by simp
  qed
  show ?thesis
    unfolding keepField_def using items props by (simp cong: sum.case_cong)
qed

lemma keepAllowed_cong [fundef_cong]:
  assumes "w = w'" and "\<And>v. v \<in> nested w' \<Longrightarrow> f v = g v"
  shows "keepAllowed f w = keepAllowed g w'"
proof -
  have "traverse (keepField f) w' = traverse (keepField g) w'"
  proof (rule traverse_cong [OF refl])
    fix kv
    assume "kv \<in> set w'"
    then have "\<And>v. v \<in> nested [kv] \<Longrightarrow> v \<in> nested w'"
      by (auto simp: nested_def)
    then show "keepField f kv = keepField g kv"
      by (intro keepField_cong assms(2))
  qed
  then show ?thesis using assms(1) by (simp add: keepAllowed_def)
qed

lemma size_entry: "(k, v) \<in> set kvs \<Longrightarrow> size v < size (JObj kvs)"
  by (induction kvs) auto

lemma size_element: "x \<in> set xs \<Longrightarrow> size x < size (JArr xs)"
  by (induction xs) auto

lemma size_ownEntries:
  assumes "(k, v) \<in> set (ownEntries j)"
  shows "size v < size j"
proof (cases j)
  case (JArr xs)
  with assms have "v \<in> set xs" by (auto dest: set_zip_rightD)
  with JArr show ?thesis using size_element by blast
next
  case (JObj kvs)
  with assms show ?thesis using size_entry by auto
qed (use assms in simp_all)

lemma set_update_entries:
  "(k, v) \<in> set (AList.update k' d es) \<Longrightarrow> (k, v) \<in> set es \<or> (k = k' \<and> v = d)"
  by (induction es) (auto split: if_splits)

lemma size_withDescription:
  assumes "(k, v) \<in> set (withDescription working c)" and "size c < size (JObj working)"
  shows "size v < size (JObj working)"
  using assms
  by (auto simp: withDescription_def split: option.splits if_splits
      dest!: set_update_entries map_of_SomeD dest: size_ownEntries size_entry)

lemma jsOr_Some: "jsOr a b = Some u \<Longrightarrow> a = Some u \<or> b = Some u"
  by (auto simp: jsOr_def split: option.splits if_splits)

lemma flattenUnion_cases:
  assumes "flattenUnion kvs = Inr working"
  shows "working = kvs
    \<or> (\<exists>vs c. jsOr (map_of kvs ''anyOf'') (map_of kvs ''oneOf'') = Some (JArr vs)
          \<and> c \<in> set vs \<and> working = withDescription kvs c)"
proof (cases "jsOr (map_of kvs ''anyOf'') (map_of kvs ''oneOf'')")
  case None
  with assms show ?thesis by (simp add: flattenUnion_def)
next
  case (Some u)
  show ?thesis
  proof (cases u)
    case (JArr vs)
    let ?variants = "filter isVariant vs"
    have hd: "?variants \<noteq> [] \<Longrightarrow> hd ?variants \<in> set vs"
      using hd_in_set [of ?variants] by auto
    have fnd: "\<And>sp. find isSpecific ?variants = Some sp \<Longrightarrow> sp \<in> set vs"
      by (auto simp: find_Some_iff dest: nth_mem)
    have pick: "\<And>c. c \<in> set vs \<Longrightarrow> working = withDescription kvs c \<Longrightarrow> ?thesis"
      using Some JArr by blast
    show ?thesis
    proof (cases "length ?variants = 1")
      case True
      then have "?variants \<noteq> []" by auto
      moreover from assms Some JArr True have "working = withDescription kvs (hd ?variants)"
        by (simp add: flattenUnion_def)
      ultimately show ?thesis using pick hd by blast
    next
      case False
      show ?thesis
      proof (cases "length ?variants > 1")
        case True
        then have ne: "?variants \<noteq> []" by auto
        show ?thesis
        proof (cases "find isSpecific ?variants")
          case None
          with assms Some JArr True False
          have "working = withDescription kvs (hd ?variants)"
            by (simp add: flattenUnion_def)
          with ne show ?thesis using pick hd by blast
        next
          case (Some sp)
          with assms \<open>jsOr (map_of kvs ''anyOf'') (map_of kvs ''oneOf'') = Some u\<close> JArr True False
          have "working = withDescription kvs sp"
            by (simp add: flattenUnion_def)
          with Some show ?thesis using pick fnd by blast
        qed
      next
        case F2: False
        with assms Some JArr False have "working = kvs"
          by (simp add: flattenUnion_def)
        then show ?thesis by simp
      qed
    qed
  qed (use assms Some in \<open>auto simp: flattenUnion_def split: if_splits\<close>)
qed

lemma size_flattenUnion:
  assumes "flattenUnion kvs = Inr working" and "(k, v) \<in> set working"
  shows "size v < size (JObj kvs)"
proof -
  from flattenUnion_cases [OF assms(1)] show ?thesis
  proof
    assume "working = kvs"
    with assms(2) show ?thesis using size_entry by blast
  next
    assume "\<exists>vs c. jsOr (map_of kvs ''anyOf'') (map_of kvs ''oneOf'') = Some (JArr vs)
          \<and> c \<in> set vs \<and> working = withDescription kvs c"
    then obtain vs c where u: "jsOr (map_of kvs ''anyOf'') (map_of kvs ''oneOf'') = Some (JArr vs)"
      and c: "c \<in> set vs" and w: "working = withDescription kvs c" by blast
    from u obtain key where "map_of kvs key = Some (JArr vs)"
      using jsOr_Some by blast
    then have "size (JArr vs) < size (JObj kvs)"
      by (meson map_of_SomeD size_entry)
    moreover from c have "size c < size (JArr vs)" by (rule size_element)
    ultimately have "size c < size (JObj kvs)" by simp
    with assms(2) w show ?thesis using size_withDescription by blast
  qed
qed

function sanitizeSchema :: "json \<Rightarrow> js_error + json" where
  "sanitizeSchema (JArr xs) =
     (case traverse sanitizeSchema xs of Inl e \<Rightarrow> Inl e | Inr ys \<Rightarrow> Inr (JArr ys))"
| "sanitizeSchema (JObj kvs) =
     (case flattenUnion kvs of
        Inl e \<Rightarrow> Inl e
      | Inr working \<Rightarrow>
          (case keepAllowed sanitizeSchema working of
             Inl e \<Rightarrow> Inl e
           | Inr clean \<Rightarrow> Inr (JObj clean)))"
| "sanitizeSchema JNull = Inr JNull"
| "sanitizeSchema (JBool b) = Inr (JBool b)"
| "sanitizeSchema (JNum n) = Inr (JNum n)"
| "sanitizeSchema (JStr s) = Inr (JStr s)"
  by pat_completeness auto
termination
proof (relation "measure size")
  show "wf (measure size)" by simp
next
  fix xs :: "json list" and x
  assume "x \<in> set xs"
  then show "(x, JArr xs) \<in> measure size" using size_element by simp
next
  fix kvs working v
  assume f: "flattenUnion kvs = Inr working" and n: "v \<in> nested working"
  from n obtain k p where kp: "(k, p) \<in> set working"
      and v: "v = p \<or> v \<in> snd ` set (ownEntries p)"
    unfolding nested_def by fastforce
  from f kp have p: "size p < size (JObj kvs)" by (rule size_flattenUnion)
  from v have "size v \<le> size p"
    using size_ownEntries by (fastforce simp: less_imp_le)
  with p show "(v, JObj kvs) \<in> measure size" by simp
qed



lemma in_measure_element: "x \<in> set xs \<Longrightarrow> (x, JArr xs) \<in> measure size"
  using size_element by simp

lemma in_measure_value: "map_of schema k = Some i \<Longrightarrow> (i, JObj schema) \<in> measure size"
  using size_entry [of k i schema] by (auto dest: map_of_SomeD)

lemma in_measure_props:
  assumes "map_of schema k = Some p" and "e \<in> set (ownEntries p)"
  shows "(snd e, JObj schema) \<in> measure size"
proof -
  from assms(1) have "size p < size (JObj schema)"
    using in_measure_value by fastforce
  moreover from assms(2) have "size (snd e) < size p"
    using size_ownEntries [of "fst e" "snd e" p] by simp
  ultimately show ?thesis by simp
qed

text \<open>
  \<^verbatim>\<open>ensureSchemaType\<close>: a missing or falsy \<^verbatim>\<open>type\<close> is set from the node's own
  fields; then the values under \<^verbatim>\<open>properties\<close> and \<^verbatim>\<open>items\<close> are treated alike.
\<close>

definition inferType :: "(string \<times> json) list \<Rightarrow> string" where
  "inferType s =
    (if truthyOpt (map_of s ''properties'') then ''object''
     else if truthyOpt (map_of s ''items'') then ''array''
     else if truthyOpt (map_of s ''enum'') then ''string''
     else ''object'')"

function ensureSchemaType :: "json \<Rightarrow> json" where
  "ensureSchemaType (JArr xs) = JArr (map ensureSchemaType xs)"
| "ensureSchemaType (JObj schema) =
     (let s1 = (if \<not> truthyOpt (map_of schema ''type'')
                then AList.update ''type'' (JStr (inferType schema)) schema
                else schema);
          s2 = (case map_of s1 ''properties'' of
                  Some p \<Rightarrow>
                    if truthy p \<and> isObjectType p
                    then AList.update ''properties''
                           (JObj (map (\<lambda>e. (fst e, ensureSchemaType (snd e))) (ownEntries p))) s1
                    else s1
                | None \<Rightarrow> s1);
          s3 = (case map_of s2 ''items'' of
                  Some i \<Rightarrow>
                    if truthy i then AList.update ''items'' (ensureSchemaType i) s2 else s2
                | None \<Rightarrow> s2)
      in JObj s3)"
| "ensureSchemaType JNull = JNull"
| "ensureSchemaType (JBool b) = JBool b"
| "ensureSchemaType (JNum n) = JNum n"
| "ensureSchemaType (JStr s) = JStr s"
  by pat_completeness auto
termination
  apply (relation "measure size")
  subgoal by simp
  subgoal by (rule in_measure_element)
  subgoal for schema s1 p e
    using in_measure_props [of schema "''properties''" p e]
    by (simp add: update_conv' split: if_splits)
  subgoal for schema s1 s2 i
    using in_measure_value [of schema "''items''" i]
    by (simp add: update_conv' split: if_splits option.splits)
  done

text \<open>
  The schema a tool declaration gets:
  \<^verbatim>\<open>ensureSchemaType(sanitizeSchema(stripDollarSchema(tool.input_schema || {})))\<close>;
  \<open>None\<close> when the input is outside the model, \<open>Inl\<close> when the code throws.
\<close>

definition cleaned :: "json option \<Rightarrow> (js_error + json) option" where
  "cleaned input_schema =
    (case stripDollarSchema
            (case jsOr input_schema (Some (JObj [])) of Some s \<Rightarrow> s | None \<Rightarrow> JObj [])
     of None \<Rightarrow> None
      | Some stripped \<Rightarrow>
          Some (case sanitizeSchema stripped of
                  Inl e \<Rightarrow> Inl e
                | Inr c \<Rightarrow> Inr (ensureSchemaType c)))"


text \<open>
  The object nodes of a schema: the schema itself when it is an object, the object nodes
  of the values under its \<^verbatim>\<open>properties\<close>, those of its \<^verbatim>\<open>items\<close>, and those of
  an array's elements. A value at such a position that is not an object (a boolean, a
  string, a number, \<^verbatim>\<open>null\<close>) is no object node. \<open>allowedAndTyped\<close>: the node has
  only allowed fields, and a \<^verbatim>\<open>type\<close> that is truthy in JavaScript's sense (not
  missing, \<^verbatim>\<open>null\<close>, \<^verbatim>\<open>false\<close>, 0 or the empty string; an empty array or
  object is truthy).
\<close>

function objectNodes :: "json \<Rightarrow> (string \<times> json) list list" where
  "objectNodes (JArr xs) = concat (map objectNodes xs)"
| "objectNodes (JObj kvs) =
     kvs
     # (case map_of kvs ''properties'' of
          Some p \<Rightarrow> concat (map (\<lambda>e. objectNodes (snd e)) (ownEntries p))
        | None \<Rightarrow> [])
     @ (case map_of kvs ''items'' of Some i \<Rightarrow> objectNodes i | None \<Rightarrow> [])"
| "objectNodes JNull = []"
| "objectNodes (JBool b) = []"
| "objectNodes (JNum n) = []"
| "objectNodes (JStr s) = []"
  by pat_completeness auto
termination
  apply (relation "measure size")
  subgoal by simp
  subgoal by (rule in_measure_element)
  subgoal by (rule in_measure_props)
  subgoal by (rule in_measure_value)
  done

definition allowedAndTyped :: "(string \<times> json) list \<Rightarrow> bool" where
  "allowedAndTyped node =
    (list_all (\<lambda>kv. fst kv \<in> set [''type'', ''description'', ''properties'', ''required'',
                                   ''items'', ''enum'', ''nullable'']) node
     \<and> (case map_of node ''type'' of Some t \<Rightarrow> truthy t | None \<Rightarrow> False))"

text \<open>The three assignments of \<^verbatim>\<open>ensureSchemaType\<close>, one at a time, for the proofs.\<close>

definition typed :: "(string \<times> json) list \<Rightarrow> (string \<times> json) list" where
  "typed schema =
    (if \<not> truthyOpt (map_of schema ''type'')
     then AList.update ''type'' (JStr (inferType schema)) schema else schema)"

definition withProperties :: "(string \<times> json) list \<Rightarrow> (string \<times> json) list" where
  "withProperties s =
    (case map_of s ''properties'' of
       Some p \<Rightarrow>
         if truthy p \<and> isObjectType p
         then AList.update ''properties''
                (JObj (map (\<lambda>e. (fst e, ensureSchemaType (snd e))) (ownEntries p))) s
         else s
     | None \<Rightarrow> s)"

definition withItems :: "(string \<times> json) list \<Rightarrow> (string \<times> json) list" where
  "withItems s =
    (case map_of s ''items'' of
       Some i \<Rightarrow> if truthy i then AList.update ''items'' (ensureSchemaType i) s else s
     | None \<Rightarrow> s)"

definition keysAllowed :: "(string \<times> json) list \<Rightarrow> bool" where
  "keysAllowed node = (fst ` set node \<subseteq> set ALLOWED_SCHEMA_FIELDS)"

definition allNodes :: "((string \<times> json) list \<Rightarrow> bool) \<Rightarrow> json \<Rightarrow> bool" where
  "allNodes P j = (\<forall>n\<in>set (objectNodes j). P n)"

section \<open>Properties of the model mapping\<close>

lemma mapModel_opus_thinking: "isThinkingModel (mapModel ''claude-opus-4-6'') = Inr True"
  by (simp add: mapModel_def readMODEL_MAP_def MODEL_MAP_def)

text \<open>
  C9 (the code at the failing input). The claim says the mapping returns a target for
  every client model name. For the name \<^verbatim>\<open>constructor\<close> the table lookup finds the
  inherited \<^verbatim>\<open>Object.prototype.constructor\<close>, which is truthy, and \<^verbatim>\<open>mapModel\<close>
  returns that function instead of a target; the caller's \<^verbatim>\<open>isThinkingModel\<close> then
  throws, and no generation config is built.
\<close>

theorem mapModel_constructor_not_target:
  "mapModel ''constructor'' = PrototypeMember ''constructor''
   \<and> isThinkingModel (mapModel ''constructor'') = Inl TypeError
   \<and> buildGenerationConfig ''constructor'' None None = Inl TypeError"
  by (simp add: mapModel_def readMODEL_MAP_def MODEL_MAP_def objectPrototypeKeys_def
      buildGenerationConfig_def)

text \<open>
  Away from the inherited keys the mapping is total and follows the claimed order:
  the table, then \<^verbatim>\<open>opus\<close>, then \<^verbatim>\<open>sonnet\<close>, then the default.
\<close>

lemma mapModel_own_names:
  assumes "m \<notin> set objectPrototypeKeys"
  shows "mapModel m =
    (case map_of MODEL_MAP m of
       Some t \<Rightarrow> ModelId t
     | None \<Rightarrow>
         if includesStr m ''opus'' then ModelId ''claude-opus-4-6-thinking''
         else if includesStr m ''sonnet'' then ModelId ''claude-sonnet-4-5-thinking''
         else ModelId ''claude-opus-4-6-thinking'')"
  using assms by (simp add: mapModel_def readMODEL_MAP_def split: option.splits)

section \<open>Properties of the generation config\<close>

lemma dynamicBudget_range: "1024 \<le> dynamicBudget raw \<and> dynamicBudget raw \<le> 10240"
  by (simp add: dynamicBudget_def)

lemma toDouble_exact: "\<bar>n\<bar> < 2 ^ 53 \<Longrightarrow> toDouble n = n"
  by (simp add: toDouble_def ulp.simps [of "\<bar>n\<bar>"] Let_def mult_sgn_abs)

lemma toDouble_dynamicBudget: "toDouble (dynamicBudget raw + 1024) = dynamicBudget raw + 1024"
  using dynamicBudget_range [of raw] by (intro toDouble_exact) simp

text \<open>
  Beyond \<open>2^53\<close> the sum rounds: for the client budget \<open>10^19\<close>, where neighbouring
  doubles are 2048 apart, \<^verbatim>\<open>thinkingBudget + 1024\<close> is the budget itself, and
  maxOutputTokens equals the thinking budget.
\<close>

lemma toDouble_rounds: "toDouble (10000000000000000000 + 1024) = 10000000000000000000"
  by code_simp

lemma huge_budget_equals_maxOutputTokens:
  "buildGenerationConfig ''claude-opus-4-6'' None (Some 10000000000000000000)
     = Inr \<lparr>maxOutputTokens = 10000000000000000000,
            thinkingConfig = Some 10000000000000000000\<rparr>"
  using toDouble_rounds
  by (simp add: mapModel_def readMODEL_MAP_def MODEL_MAP_def buildGenerationConfig_def
      rawMaxTokens_def thinkingBudget_def orElse_def)

text \<open>
  C4 (as stated, refuted). The claim says the thinking budget equals the client's budget
  whenever one is given. A request for \<^verbatim>\<open>claude-opus-4-6\<close> with
  \<^verbatim>\<open>max_tokens = 8000\<close> and \<^verbatim>\<open>thinking.budget_tokens = 0\<close> is mapped to a thinking
  target and gets the budget 2000, not the given 0.
\<close>

theorem thinkingBudget_zero_counterexample:
  "isThinkingModel (mapModel ''claude-opus-4-6'') = Inr True
   \<and> buildGenerationConfig ''claude-opus-4-6'' (Some 8000) (Some 0)
       = Inr \<lparr>maxOutputTokens = 8000, thinkingConfig = Some 2000\<rparr>
   \<and> Some (2000::int) \<noteq> Some 0"
  by (simp add: mapModel_def readMODEL_MAP_def MODEL_MAP_def buildGenerationConfig_def
      rawMaxTokens_def thinkingBudget_def dynamicBudget_def orElse_def toDouble_exact)

text \<open>
  C4 (amended). For every request mapped to a thinking-capable target, with integer token
  counts and a client budget of magnitude below \<open>2^53 - 1024\<close> (where
  \<^verbatim>\<open>thinkingBudget + 1024\<close> is exact): the original maxOutputTokens is the client's
  \<^verbatim>\<open>max_tokens\<close> when given and non-zero, else 16384; the thinking budget is the
  client's budget when given and non-zero, else
  \<open>min 10240 (max 1024 (floor (original / 4)))\<close>; the final maxOutputTokens is
  \<open>max original (budget + 1024)\<close>; so the budget is strictly below maxOutputTokens,
  and an auto-computed budget lies in \<open>[1024, 10240]\<close>.
\<close>

theorem thinking_generation_config:
  assumes "isThinkingModel (mapModel model) = Inr True"
    and "\<forall>b. budget_tokens = Some b \<longrightarrow> \<bar>b\<bar> < 2 ^ 53 - 1024"
  shows "\<exists>cfg tb original.
      buildGenerationConfig model max_tokens budget_tokens = Inr cfg
    \<and> original = (case max_tokens of None \<Rightarrow> 16384 | Some n \<Rightarrow> if n = 0 then 16384 else n)
    \<and> tb = (case budget_tokens of
               None \<Rightarrow> min 10240 (max 1024 (original div 4))
             | Some b \<Rightarrow> if b = 0 then min 10240 (max 1024 (original div 4)) else b)
    \<and> thinkingConfig cfg = Some tb
    \<and> maxOutputTokens cfg = max original (tb + 1024)
    \<and> tb < maxOutputTokens cfg
    \<and> ((budget_tokens = None \<or> budget_tokens = Some 0) \<longrightarrow> 1024 \<le> tb \<and> tb \<le> 10240)"
proof -
  let ?raw = "rawMaxTokens max_tokens"
  let ?tb = "thinkingBudget budget_tokens ?raw"
  have exact: "toDouble (?tb + 1024) = ?tb + 1024"
  proof (cases "\<exists>b. budget_tokens = Some b \<and> b \<noteq> 0")
    case True
    then obtain b where b: "budget_tokens = Some b" "b \<noteq> 0" by blast
    with assms(2) have "\<bar>b + 1024\<bar> < 2 ^ 53" by auto
    with b show ?thesis by (simp add: thinkingBudget_def orElse_def toDouble_exact)
  next
    case False
    then have "?tb = dynamicBudget ?raw"
      by (auto simp: thinkingBudget_def orElse_def split: option.splits)
    then show ?thesis by (simp add: toDouble_dynamicBudget)
  qed
  have cfg: "buildGenerationConfig model max_tokens budget_tokens
      = Inr \<lparr>maxOutputTokens = max ?raw (?tb + 1024), thinkingConfig = Some ?tb\<rparr>"
    using assms(1) exact by (simp add: buildGenerationConfig_def Let_def)
  show ?thesis
    unfolding cfg
    by (auto simp: rawMaxTokens_def thinkingBudget_def dynamicBudget_def orElse_def
        split: option.splits)
qed

theorem thinking_generation_config_witness:
  "isThinkingModel (mapModel ''claude-opus-4-6'') = Inr True
   \<and> buildGenerationConfig ''claude-opus-4-6'' (Some 100) None
       = Inr \<lparr>maxOutputTokens = 2048, thinkingConfig = Some 1024\<rparr>"
  using thinking_generation_config [OF mapModel_opus_thinking, of None "Some 100"]
  by (auto simp: mapModel_opus_thinking)

text \<open>
  C10. For every request mapped to a thinking-capable target, a budget of 0 is ignored:
  the budget sent is the auto-computed
  \<open>min 10240 (max 1024 (floor (maxOutputTokens / 4)))\<close>, and the whole generation
  config is the one built when no budget is given.
\<close>

theorem zero_budget_is_absent_budget:
  assumes "isThinkingModel (mapModel model) = Inr True"
  shows "buildGenerationConfig model max_tokens (Some 0)
           = buildGenerationConfig model max_tokens None
       \<and> (\<exists>cfg. buildGenerationConfig model max_tokens (Some 0) = Inr cfg
            \<and> thinkingConfig cfg
                = Some (min 10240 (max 1024 (rawMaxTokens max_tokens div 4))))"
  using assms
  by (simp add: buildGenerationConfig_def thinkingBudget_def dynamicBudget_def orElse_def
      Let_def)

theorem zero_budget_is_absent_budget_witness:
  "isThinkingModel (mapModel ''claude-sonnet-4-5-thinking'') = Inr True
   \<and> buildGenerationConfig ''claude-sonnet-4-5-thinking'' (Some 20000) (Some 0)
       = buildGenerationConfig ''claude-sonnet-4-5-thinking'' (Some 20000) None
   \<and> (\<exists>cfg. buildGenerationConfig ''claude-sonnet-4-5-thinking'' (Some 20000) (Some 0)
              = Inr cfg
            \<and> thinkingConfig cfg = Some 5000)"
proof -
  have h: "isThinkingModel (mapModel ''claude-sonnet-4-5-thinking'') = Inr True"
    by (simp add: mapModel_def readMODEL_MAP_def MODEL_MAP_def)
  have r: "min 10240 (max 1024 (rawMaxTokens (Some 20000) div 4)) = 5000"
    by (simp add: rawMaxTokens_def orElse_def)
  from zero_budget_is_absent_budget [OF h, of "Some 20000"] h show ?thesis
    unfolding r by blast
qed

section \<open>Properties of the role alternation merge\<close>

lemma alternating_snoc:
  "alternating (xs @ [y]) = (alternating xs \<and> (xs = [] \<or> role (last xs) \<noteq> role y))"
  by (induction xs rule: alternating.induct) auto

lemma alternating_snoc2:
  "alternating (xs @ [y, z]) = (alternating (xs @ [y]) \<and> role y \<noteq> role z)"
  using alternating_snoc [of "xs @ [y]" z] by simp

lemma mergeStep_alternating: "alternating c \<Longrightarrow> alternating (mergeStep c e)"
proof (cases "c = []")
  case True
  then show ?thesis by (simp add: mergeStep_def)
next
  case False
  assume a: "alternating c"
  from False obtain b l where c: "c = b @ [l]" by (metis append_butlast_last_id)
  show ?thesis using a unfolding c
    by (auto simp: mergeStep_def alternating_snoc alternating_snoc2)
qed

lemma mergeLoop_alternating: "alternating c \<Longrightarrow> alternating (mergeLoop c raw)"
  by (induction raw arbitrary: c) (simp_all add: mergeStep_alternating)

lemma mergeStep_parts: "concat (map parts (mergeStep c e)) = concat (map parts c) @ parts e"
proof (cases "c = []")
  case True
  then show ?thesis by (simp add: mergeStep_def)
next
  case False
  then obtain b l where c: "c = b @ [l]" by (metis append_butlast_last_id)
  show ?thesis unfolding c by (simp add: mergeStep_def)
qed

lemma mergeLoop_parts:
  "concat (map parts (mergeLoop c raw)) = concat (map parts c) @ concat (map parts raw)"
  by (induction raw arbitrary: c) (simp_all add: mergeStep_parts)

lemma mergeLoop_snoc: "mergeLoop c (raw @ [e]) = mergeStep (mergeLoop c raw) e"
  by (induction raw arbitrary: c) simp_all

lemma mergeStep_roles:
  "map role (mergeStep c e) =
    (if c \<noteq> [] \<and> last (map role c) = role e then map role c else map role c @ [role e])"
proof (cases "c = []")
  case True
  then show ?thesis by (simp add: mergeStep_def)
next
  case False
  then obtain b l where c: "c = b @ [l]" by (metis append_butlast_last_id)
  show ?thesis unfolding c by (simp add: mergeStep_def)
qed

lemma remdups_adj_snoc:
  "remdups_adj (xs @ [x]) =
    (if xs \<noteq> [] \<and> last (remdups_adj xs) = x then remdups_adj xs else remdups_adj xs @ [x])"
  by (induction xs rule: remdups_adj.induct) auto

lemma mergeLoop_roles: "map role (mergeLoop [] raw) = remdups_adj (map role raw)"
proof (induction raw rule: rev_induct)
  case Nil
  then show ?case by simp
next
  case (snoc e raw)
  then have "(mergeLoop [] raw = []) = (raw = [])"
    by (metis map_is_Nil_conv remdups_adj_Nil_iff)
  with snoc show ?case
    by (simp add: mergeLoop_snoc mergeStep_roles remdups_adj_snoc)
qed

text \<open>
  C2. For every client message list the provider turn list has no two adjacent turns
  with the same role. A raw turn whose role equals the role of the last emitted turn is
  not emitted: its parts are appended to that turn; any other raw turn is emitted as a
  new last turn. So the emitted roles are the raw roles with adjacent repetitions
  collapsed, and the emitted parts are the raw parts, all of them, in order.
\<close>

theorem merged_turns_alternate:
  "alternating (convertMessages stringify messages)
   \<and> map role (convertMessages stringify messages)
       = remdups_adj (map role (rawContents stringify messages))
   \<and> concat (map parts (convertMessages stringify messages))
       = concat (map parts (rawContents stringify messages))
   \<and> mergeLoop [] (raw @ [entry]) =
       (let contents = mergeLoop [] raw in
        if contents \<noteq> [] \<and> role (last contents) = role entry
        then butlast contents
             @ [(last contents)\<lparr>parts := parts (last contents) @ parts entry\<rparr>]
        else contents @ [entry])"
proof -
  have "alternating (convertMessages stringify messages)"
    unfolding convertMessages_def by (rule mergeLoop_alternating) simp
  moreover have "map role (convertMessages stringify messages)
      = remdups_adj (map role (rawContents stringify messages))"
    unfolding convertMessages_def by (rule mergeLoop_roles)
  moreover have "concat (map parts (convertMessages stringify messages))
      = concat (map parts (rawContents stringify messages))"
    unfolding convertMessages_def by (simp add: mergeLoop_parts)
  moreover have "mergeLoop [] (raw @ [entry]) =
       (let contents = mergeLoop [] raw in
        if contents \<noteq> [] \<and> role (last contents) = role entry
        then butlast contents
             @ [(last contents)\<lparr>parts := parts (last contents) @ parts entry\<rparr>]
        else contents @ [entry])"
    by (simp add: mergeLoop_snoc mergeStep_def Let_def)
  ultimately show ?thesis by blast
qed

text \<open>
  An instance: a user text, a tool result with a sibling text (two raw user turns), and
  an assistant message holding only a thinking block give two turns, user then model.
\<close>

theorem merged_turns_alternate_witness:
  "convertMessages (\<lambda>j. ''null'')
     [Some \<lparr>msg_role = ''user'', msg_content = StringContent ''hi''\<rparr>,
      None,
      Some \<lparr>msg_role = ''user'', msg_content = ArrayContent
              [Some (ToolResultBlock (Some ''t1'') (StrOutput ''42'')),
               Some (TextBlock (Some ''next''))]\<rparr>,
      Some \<lparr>msg_role = ''assistant'', msg_content = ArrayContent [Some ThinkingBlock]\<rparr>]
   = [\<lparr>role = User, parts = [Text ''hi'', FunctionResponse ''t1'' (Some ''t1'') ''42'',
                                Text ''next'']\<rparr>,
      \<lparr>role = Model, parts = [Text ''...'']\<rparr>]
   \<and> alternating (convertMessages (\<lambda>j. ''null'')
     [Some \<lparr>msg_role = ''user'', msg_content = StringContent ''hi''\<rparr>,
      None,
      Some \<lparr>msg_role = ''user'', msg_content = ArrayContent
              [Some (ToolResultBlock (Some ''t1'') (StrOutput ''42'')),
               Some (TextBlock (Some ''next''))]\<rparr>,
      Some \<lparr>msg_role = ''assistant'', msg_content = ArrayContent [Some ThinkingBlock]\<rparr>])"
  using merged_turns_alternate [of "\<lambda>j. ''null''"
     "[Some \<lparr>msg_role = ''user'', msg_content = StringContent ''hi''\<rparr>,
      None,
      Some \<lparr>msg_role = ''user'', msg_content = ArrayContent
              [Some (ToolResultBlock (Some ''t1'') (StrOutput ''42'')),
               Some (TextBlock (Some ''next''))]\<rparr>,
      Some \<lparr>msg_role = ''assistant'', msg_content = ArrayContent [Some ThinkingBlock]\<rparr>]"]
  by (simp add: convertMessages_def convertMessage_def regularParts_def mergeStep_def
      strOrElse_def)

section \<open>Properties of the endpoint racer\<close>

lemma isFulfilled_fetchOne: "isFulfilled (fetchOne net ep) = succeeded (net ep)"
  by (cases "net ep") (simp_all add: fetchOne_def)

lemma find_first_success:
  assumes "\<forall>e\<in>set pre. \<not> succeeded (net e)" and "succeeded (net ep)"
  shows "find isFulfilled (map (fetchOne net) (pre @ ep # post)) = Some (fetchOne net ep)"
  using assms by (induction pre) (simp_all add: isFulfilled_fetchOne)

lemma find_no_success:
  assumes "\<forall>e\<in>set eps. \<not> succeeded (net e)"
  shows "find isFulfilled (map (fetchOne net) eps) = None"
  using assms by (induction eps) (simp_all add: isFulfilled_fetchOne)

lemma api_error_message_bounded:
  "resolveRace net endpoints = ErrorReply code (api_error msg) \<Longrightarrow> length msg \<le> 300"
  by (auto simp: resolveRace_def Let_def strOrElse_def
      split: option.splits settled.splits list.splits if_splits prod.splits)

text \<open>
  C1 (as stated, refuted). The claim says that for a status other than 429 and 503 the
  error carries an excerpt of the response body. When both endpoints answer 500 with an
  empty body, the message is the fixed text \<^verbatim>\<open>All endpoints failed\<close>, which is not
  taken from the body.
\<close>

theorem empty_body_counterexample:
  "resolveRace emptyFailure ENDPOINTS = ErrorReply 500 (api_error ''All endpoints failed'')
   \<and> emptyFailure PROD_EP = Response 500 []
   \<and> ''All endpoints failed'' \<noteq> take 300 ([] :: string)"
  by (simp add: resolveRace_def ENDPOINTS_def fetchOne_def ok_def strOrElse_def
      emptyFailure_def)

text \<open>
  C1 (amended). The racer settles every candidate and then selects by list order, not
  by arrival. If any candidate succeeded it resolves to the first success in list order.
  Otherwise it resolves to the primary (first-listed) candidate's failure: status 429 or
  503 gives the overloaded error (reply 529); any other status gives a generic
  \<^verbatim>\<open>api_error\<close> whose message is the first 300 characters of the response body, or the
  fixed text \<^verbatim>\<open>All endpoints failed\<close> when the body is empty (reply 400 for status
  400, else 500); a primary that met no response gives the same fixed text. The message
  of a generic error never exceeds 300 characters.
\<close>

theorem race_resolution:
  "(endpoints = pre @ ep # post \<and> (\<forall>e\<in>set pre. \<not> succeeded (net e))
      \<and> net ep = Response status body \<and> 200 \<le> status \<and> status \<le> 299
     \<longrightarrow> resolveRace net endpoints = GoogleResp status body)
   \<and> ((\<forall>e\<in>set (primary # others). \<not> succeeded (net e))
       \<and> net primary = Response pstatus pbody
     \<longrightarrow> resolveRace net (primary # others) =
          (if pstatus = 429 then ErrorReply 529 (overloaded_error RateLimited)
           else if pstatus = 503 then ErrorReply 529 (overloaded_error Unavailable)
           else ErrorReply (if pstatus = 400 then 400 else 500)
                  (api_error (if pbody = [] then ''All endpoints failed''
                              else take 300 pbody))))
   \<and> ((\<forall>e\<in>set (primary # others). \<not> succeeded (net e)) \<and> net primary = FetchFailed
     \<longrightarrow> resolveRace net (primary # others)
          = ErrorReply 500 (api_error ''All endpoints failed''))
   \<and> (resolveRace net endpoints = ErrorReply code (api_error msg) \<longrightarrow> length msg \<le> 300)"
proof (intro conjI impI)
  assume a: "endpoints = pre @ ep # post \<and> (\<forall>e\<in>set pre. \<not> succeeded (net e))
      \<and> net ep = Response status body \<and> 200 \<le> status \<and> status \<le> 299"
  then have s: "succeeded (net ep)" by (simp add: ok_def)
  from a have f: "fetchOne net ep = Fulfilled status body"
    by (simp add: fetchOne_def ok_def)
  from a s have "find isFulfilled (map (fetchOne net) endpoints) = Some (fetchOne net ep)"
    using find_first_success [of pre net ep post] by simp
  with f show "resolveRace net endpoints = GoogleResp status body"
    by (simp add: resolveRace_def)
next
  assume a: "(\<forall>e\<in>set (primary # others). \<not> succeeded (net e))
       \<and> net primary = Response pstatus pbody"
  then have n: "find isFulfilled (map (fetchOne net) (primary # others)) = None"
    using find_no_success [of "primary # others" net] by blast
  from a have "\<not> ok pstatus" by auto
  with a have f: "fetchOne net primary = Rejected (Some (pstatus, pbody))"
    by (simp add: fetchOne_def)
  have "map (fetchOne net) (primary # others)
      = Rejected (Some (pstatus, pbody)) # map (fetchOne net) others"
    using f by simp
  with n show "resolveRace net (primary # others) =
          (if pstatus = 429 then ErrorReply 529 (overloaded_error RateLimited)
           else if pstatus = 503 then ErrorReply 529 (overloaded_error Unavailable)
           else ErrorReply (if pstatus = 400 then 400 else 500)
                  (api_error (if pbody = [] then ''All endpoints failed''
                              else take 300 pbody)))"
    unfolding resolveRace_def Let_def by (simp add: strOrElse_def)
next
  assume a: "(\<forall>e\<in>set (primary # others). \<not> succeeded (net e)) \<and> net primary = FetchFailed"
  then have n: "find isFulfilled (map (fetchOne net) (primary # others)) = None"
    using find_no_success [of "primary # others" net] by blast
  from a have "map (fetchOne net) (primary # others) = Rejected None # map (fetchOne net) others"
    by (simp add: fetchOne_def)
  with n show "resolveRace net (primary # others)
          = ErrorReply 500 (api_error ''All endpoints failed'')"
    unfolding resolveRace_def Let_def by simp
next
  assume "resolveRace net endpoints = ErrorReply code (api_error msg)"
  then show "length msg \<le> 300" by (rule api_error_message_bounded)
qed

text \<open>
  Instances: the primary answers 429 and the second candidate 200 (the stream of the
  second is used); both answer 503 (overloaded); both answer 404 with a body.
\<close>

theorem race_resolution_witness:
  "resolveRace (\<lambda>ep. if ep = PROD_EP then Response 429 ''busy'' else Response 200 ''data: {}'')
       ENDPOINTS = GoogleResp 200 ''data: {}''
   \<and> resolveRace (\<lambda>ep. Response 503 ''down'') ENDPOINTS
       = ErrorReply 529 (overloaded_error Unavailable)
   \<and> resolveRace (\<lambda>ep. Response 404 ''not found'') ENDPOINTS
       = ErrorReply 500 (api_error ''not found'')"
proof -
  have 1: "resolveRace
      (\<lambda>ep. if ep = PROD_EP then Response 429 ''busy'' else Response 200 ''data: {}'')
      ENDPOINTS = GoogleResp 200 ''data: {}''"
    using race_resolution
      [where net = "\<lambda>ep. if ep = PROD_EP then Response 429 ''busy'' else Response 200 ''data: {}''"
         and endpoints = ENDPOINTS and pre = "[PROD_EP]" and ep = SANDBOX_EP and post = "[]"
         and status = 200 and body = "''data: {}''"]
    by (simp add: ENDPOINTS_def PROD_EP_def SANDBOX_EP_def ok_def)
  have 2: "resolveRace (\<lambda>ep. Response 503 ''down'') ENDPOINTS
      = ErrorReply 529 (overloaded_error Unavailable)"
    using race_resolution
      [where net = "\<lambda>ep. Response 503 ''down''" and primary = PROD_EP
         and others = "[SANDBOX_EP]" and pstatus = 503 and pbody = "''down''"]
    by (simp add: ENDPOINTS_def ok_def)
  have 3: "resolveRace (\<lambda>ep. Response 404 ''not found'') ENDPOINTS
      = ErrorReply 500 (api_error ''not found'')"
    using race_resolution
      [where net = "\<lambda>ep. Response 404 ''not found''" and primary = PROD_EP
         and others = "[SANDBOX_EP]" and pstatus = 404 and pbody = "''not found''"]
    by (simp add: ENDPOINTS_def ok_def)
  from 1 2 3 show ?thesis by blast
qed

section \<open>Properties of the stream translator\<close>

lemma tracked_streamStart: "tracked (streamStart m)"
  by (simp add: tracked_def streamStart_def)

lemma tracked_textStep: "tracked s \<Longrightarrow> tracked (textStep t s)"
  by (cases "started s") (simp_all add: tracked_def textStep_def emit_def Let_def)

lemma tracked_callStep: "tracked s \<Longrightarrow> tracked (callStep stringify toolId call s)"
  by (cases call; cases "started s")
     (simp_all add: tracked_def callStep_def emit_def Let_def)

lemma tracked_processPart: "tracked s \<Longrightarrow> tracked (processPart stringify toolId s part)"
  by (simp add: processPart_def tracked_textStep tracked_callStep split: option.splits)

lemma tracked_processParts: "tracked s \<Longrightarrow> tracked (processParts stringify toolId s ps)"
  by (induction ps arbitrary: s) (simp_all add: tracked_processPart)

lemma tracked_usageStep: "tracked s \<Longrightarrow> tracked (usageStep um s)"
  by (simp add: tracked_def usageStep_def split: option.splits)

lemma tracked_processChunk: "tracked s \<Longrightarrow> tracked (processChunk stringify toolId s chunk)"
  by (simp add: processChunk_def tracked_usageStep tracked_processParts split: option.splits)

lemma tracked_processChunks:
  "tracked s \<Longrightarrow> tracked (processChunks stringify toolId s chunks)"
  by (induction chunks arbitrary: s) (simp_all add: tracked_processChunk)

lemma wellFormed_finish: "tracked s \<Longrightarrow> wellFormed (written (finish s))"
  by (cases "started s") (simp_all add: tracked_def wellFormed_def finish_def emit_def Let_def)

text \<open>
  What holds of the stream translator for every backend event stream: the client events
  follow the protocol (block indices are assigned contiguously from 0, and a block is
  stopped at its index before the next one opens). And a stream of one function-call
  chunk, whose part carries nothing but the function call, and then one usage-metadata
  chunk yields exactly: \<^verbatim>\<open>message_start\<close>; the start of a \<^verbatim>\<open>tool_use\<close> block at index
  0; its \<^verbatim>\<open>input_json_delta\<close>; its stop at index 0; \<^verbatim>\<open>message_delta\<close> with stop reason
  \<^verbatim>\<open>tool_use\<close> and the observed output tokens (candidates plus thoughts);
  \<^verbatim>\<open>message_stop\<close>.
\<close>

lemma stream_blocks_well_formed:
  "wellFormed (streamGoogleToAnthropic stringify toolId anthropicModel chunks)
   \<and> streamGoogleToAnthropic stringify toolId anthropicModel
        [Some \<lparr>resp_parts = Some [\<lparr>part_text = None, part_thought = th,
                                    part_thoughtSignature = None,
                                    part_functionCall = Some fc\<rparr>],
               resp_finishReason = fr1, resp_usageMetadata = None\<rparr>,
         Some \<lparr>resp_parts = None, resp_finishReason = fr2,
               resp_usageMetadata = Some \<lparr>promptTokenCount = p,
                                          candidatesTokenCount = Some c,
                                          thoughtsTokenCount = Some t\<rparr>\<rparr>]
       = [message_start anthropicModel,
          content_block_start 0 (tool_use_block (toolId 0) (fc_name fc) (JObj [])),
          content_block_delta 0 (input_json_delta (stringify (argsOrEmpty fc))),
          content_block_stop 0,
          message_delta tool_use (c + t),
          message_stop]"
proof
  show "wellFormed (streamGoogleToAnthropic stringify toolId anthropicModel chunks)"
    unfolding streamGoogleToAnthropic_def
    by (intro wellFormed_finish tracked_processChunks tracked_streamStart)
next
  show "streamGoogleToAnthropic stringify toolId anthropicModel
        [Some \<lparr>resp_parts = Some [\<lparr>part_text = None, part_thought = th,
                                    part_thoughtSignature = None,
                                    part_functionCall = Some fc\<rparr>],
               resp_finishReason = fr1, resp_usageMetadata = None\<rparr>,
         Some \<lparr>resp_parts = None, resp_finishReason = fr2,
               resp_usageMetadata = Some \<lparr>promptTokenCount = p,
                                          candidatesTokenCount = Some c,
                                          thoughtsTokenCount = Some t\<rparr>\<rparr>]
       = [message_start anthropicModel,
          content_block_start 0 (tool_use_block (toolId 0) (fc_name fc) (JObj [])),
          content_block_delta 0 (input_json_delta (stringify (argsOrEmpty fc))),
          content_block_stop 0,
          message_delta tool_use (c + t),
          message_stop]"
    by (simp add: streamGoogleToAnthropic_def streamStart_def processChunk_def
        processPart_def callStep_def usageStep_def finish_def emit_def truthyStr_def
        orElse_def Let_def)
qed

text \<open>
  C8 (the code at the failing input). The claim says that a stream of one function-call
  chunk and one usage-metadata chunk yields a \<^verbatim>\<open>tool_use\<close> block at index 0 and the
  stop reason \<^verbatim>\<open>tool_use\<close>. When the function-call part also carries a
  \<^verbatim>\<open>thoughtSignature\<close> (and no text), the check
  \<^verbatim>\<open>if (part.thoughtSignature && !part.text) continue\<close> leaves the part before its
  function call is read: the client gets no block at all and the stop reason
  \<^verbatim>\<open>end_turn\<close>. The batch translator turns the same events into a \<^verbatim>\<open>tool_use\<close>
  block with the stop reason \<^verbatim>\<open>tool_use\<close>.
\<close>

theorem signed_function_call_dropped:
  "streamGoogleToAnthropic stringify toolId anthropicModel
     [Some \<lparr>resp_parts = Some [\<lparr>part_text = None, part_thought = False,
                                 part_thoughtSignature = Some ''sig'',
                                 part_functionCall = Some fc\<rparr>],
            resp_finishReason = None, resp_usageMetadata = None\<rparr>,
      Some \<lparr>resp_parts = None, resp_finishReason = None,
            resp_usageMetadata = Some \<lparr>promptTokenCount = p,
                                       candidatesTokenCount = Some c,
                                       thoughtsTokenCount = Some t\<rparr>\<rparr>]
   = [message_start anthropicModel, message_delta end_turn (c + t), message_stop]
   \<and> msg_blocks (convertGoogleSSEToAnthropicStream toolId
     [Some \<lparr>resp_parts = Some [\<lparr>part_text = None, part_thought = False,
                                 part_thoughtSignature = Some ''sig'',
                                 part_functionCall = Some fc\<rparr>],
            resp_finishReason = None, resp_usageMetadata = None\<rparr>,
      Some \<lparr>resp_parts = None, resp_finishReason = None,
            resp_usageMetadata = Some \<lparr>promptTokenCount = p,
                                       candidatesTokenCount = Some c,
                                       thoughtsTokenCount = Some t\<rparr>\<rparr>]
     anthropicModel)
     = [tool_use_block (toolId 0) (fc_name fc) (argsOrEmpty fc)]
   \<and> msg_stop_reason (convertGoogleSSEToAnthropicStream toolId
     [Some \<lparr>resp_parts = Some [\<lparr>part_text = None, part_thought = False,
                                 part_thoughtSignature = Some ''sig'',
                                 part_functionCall = Some fc\<rparr>],
            resp_finishReason = None, resp_usageMetadata = None\<rparr>,
      Some \<lparr>resp_parts = None, resp_finishReason = None,
            resp_usageMetadata = Some \<lparr>promptTokenCount = p,
                                       candidatesTokenCount = Some c,
                                       thoughtsTokenCount = Some t\<rparr>\<rparr>]
     anthropicModel)
     = tool_use"
  by (simp add: streamGoogleToAnthropic_def streamStart_def processChunk_def
      processPart_def usageStep_def finish_def emit_def truthyStr_def orElse_def Let_def
      convertGoogleSSEToAnthropicStream_def batchEvent_def batchPart_def)

text \<open>
  C3 (the code at the failing input). The claim says the stop reason is \<^verbatim>\<open>tool_use\<close>
  exactly when a tool-use block was produced. For one chunk whose parts are a function
  call and then a text, the translator produces a tool-use block at index 0 and a text
  block at index 1, closes the text block, and still reports \<^verbatim>\<open>end_turn\<close>:
  \<^verbatim>\<open>contentIndex > (started ? 1 : 0)\<close> is \<open>1 > 1\<close>.
\<close>

theorem stream_call_then_text_end_turn:
  "streamGoogleToAnthropic stringify toolId anthropicModel
     [Some \<lparr>resp_parts = Some
              [\<lparr>part_text = None, part_thought = False, part_thoughtSignature = None,
                part_functionCall = Some \<lparr>fc_name = ''ls'', fc_args = None\<rparr>\<rparr>,
               \<lparr>part_text = Some ''done'', part_thought = False,
                part_thoughtSignature = None, part_functionCall = None\<rparr>],
            resp_finishReason = None, resp_usageMetadata = None\<rparr>]
   = [message_start anthropicModel,
      content_block_start 0 (tool_use_block (toolId 0) ''ls'' (JObj [])),
      content_block_delta 0 (input_json_delta (stringify (JObj []))),
      content_block_stop 0,
      content_block_start 1 (text_block []),
      content_block_delta 1 (text_delta ''done''),
      content_block_stop 1,
      message_delta end_turn 0,
      message_stop]
   \<and> list_ex isToolStart
       (streamGoogleToAnthropic stringify toolId anthropicModel
         [Some \<lparr>resp_parts = Some
              [\<lparr>part_text = None, part_thought = False, part_thoughtSignature = None,
                part_functionCall = Some \<lparr>fc_name = ''ls'', fc_args = None\<rparr>\<rparr>,
               \<lparr>part_text = Some ''done'', part_thought = False,
                part_thoughtSignature = None, part_functionCall = None\<rparr>],
            resp_finishReason = None, resp_usageMetadata = None\<rparr>])"
  by (simp add: streamGoogleToAnthropic_def streamStart_def processChunk_def
      processPart_def callStep_def textStep_def usageStep_def finish_def emit_def
      truthyStr_def argsOrEmpty_def jsOr_def Let_def)

section \<open>Properties of the batch translator\<close>

text \<open>
  C5 (the code at the failing input). The claim says internal-reasoning text is left out
  of the text block. The batch translator leaves out a text only when its part carries
  a \<^verbatim>\<open>thoughtSignature\<close>; a reasoning part marked \<^verbatim>\<open>thought: true\<close> without a
  signature is concatenated into the text block, while the stream translator drops the
  same part.
\<close>

theorem batch_keeps_thought_text:
  "convertGoogleSSEToAnthropicStream toolId
     [Some \<lparr>resp_parts = Some
              [\<lparr>part_text = Some ''plan'', part_thought = True,
                part_thoughtSignature = None, part_functionCall = None\<rparr>,
               \<lparr>part_text = Some ''answer'', part_thought = False,
                part_thoughtSignature = None, part_functionCall = None\<rparr>],
            resp_finishReason = Some ''STOP'', resp_usageMetadata = None\<rparr>]
     anthropicModel
   = \<lparr>msg_model = anthropicModel, msg_blocks = [text_block ''plananswer''],
      msg_stop_reason = end_turn, msg_input_tokens = 0, msg_output_tokens = 0\<rparr>
   \<and> streamGoogleToAnthropic stringify toolId anthropicModel
     [Some \<lparr>resp_parts = Some
              [\<lparr>part_text = Some ''plan'', part_thought = True,
                part_thoughtSignature = None, part_functionCall = None\<rparr>,
               \<lparr>part_text = Some ''answer'', part_thought = False,
                part_thoughtSignature = None, part_functionCall = None\<rparr>],
            resp_finishReason = Some ''STOP'', resp_usageMetadata = None\<rparr>]
   = [message_start anthropicModel,
      content_block_start 0 (text_block []),
      content_block_delta 0 (text_delta ''answer''),
      content_block_stop 0,
      message_delta end_turn 0,
      message_stop]"
  by (simp add: convertGoogleSSEToAnthropicStream_def batchEvent_def batchPart_def
      streamGoogleToAnthropic_def streamStart_def processChunk_def
      processPart_def callStep_def textStep_def usageStep_def finish_def emit_def
      truthyStr_def Let_def)

section \<open>Properties of the schema normalizer\<close>

lemma traverse_Inr_elem:
  "traverse g xs = Inr ys \<Longrightarrow> y \<in> set ys \<Longrightarrow> \<exists>x\<in>set xs. g x = Inr y"
  by (induction xs arbitrary: ys) (auto split: sum.splits)

lemma ensureSchemaType_steps:
  "ensureSchemaType (JObj schema) = JObj (withItems (withProperties (typed schema)))"
  by (simp add: typed_def withProperties_def withItems_def Let_def)

lemma map_of_typed:
  "map_of (typed s) k =
    (if k = ''type'' \<and> \<not> truthyOpt (map_of s ''type'') then Some (JStr (inferType s))
     else map_of s k)"
  by (simp add: typed_def update_conv')

lemma map_of_withProperties:
  "map_of (withProperties s) k =
    (if k = ''properties'' then
       (case map_of s ''properties'' of
          Some p \<Rightarrow>
            if truthy p \<and> isObjectType p
            then Some (JObj (map (\<lambda>e. (fst e, ensureSchemaType (snd e))) (ownEntries p)))
            else Some p
        | None \<Rightarrow> None)
     else map_of s k)"
  by (simp add: withProperties_def update_conv' split: option.splits)

lemma map_of_withItems:
  "map_of (withItems s) k =
    (if k = ''items'' then
       (case map_of s ''items'' of
          Some i \<Rightarrow> if truthy i then Some (ensureSchemaType i) else Some i
        | None \<Rightarrow> None)
     else map_of s k)"
  by (simp add: withItems_def update_conv' split: option.splits)

lemma keys_typed: "fst ` set (typed s) \<subseteq> insert ''type'' (fst ` set s)"
  by (auto simp: typed_def dom_update)

lemma keys_withProperties: "fst ` set (withProperties s) \<subseteq> insert ''properties'' (fst ` set s)"
  by (auto simp: withProperties_def dom_update split: option.splits)

lemma keys_withItems: "fst ` set (withItems s) \<subseteq> insert ''items'' (fst ` set s)"
  by (auto simp: withItems_def dom_update split: option.splits)

lemma allNodes_JObj:
  "allNodes P (JObj kvs) =
    (P kvs
     \<and> (\<forall>p. map_of kvs ''properties'' = Some p
            \<longrightarrow> (\<forall>e\<in>set (ownEntries p). allNodes P (snd e)))
     \<and> (\<forall>i. map_of kvs ''items'' = Some i \<longrightarrow> allNodes P i))"
  by (cases "map_of kvs ''properties''"; cases "map_of kvs ''items''")
     (auto simp: allNodes_def)

lemma allNodes_JArr: "allNodes P (JArr xs) = (\<forall>x\<in>set xs. allNodes P x)"
  by (auto simp: allNodes_def)

lemma nodes_falsy: "\<not> truthy j \<Longrightarrow> objectNodes j = []"
  by (cases j) simp_all

lemma ownEntries_not_object: "\<not> (truthy p \<and> isObjectType p) \<Longrightarrow> ownEntries p = []"
  by (cases p) simp_all

lemma allowed_names:
  "''type'' \<in> set ALLOWED_SCHEMA_FIELDS" "''properties'' \<in> set ALLOWED_SCHEMA_FIELDS"
  "''items'' \<in> set ALLOWED_SCHEMA_FIELDS"
  by (simp_all add: ALLOWED_SCHEMA_FIELDS_def)

lemma inferType_nonempty: "inferType s \<noteq> []"
  by (simp add: inferType_def)

lemma allowedAndTyped_ensured:
  assumes "keysAllowed schema"
  shows "allowedAndTyped (withItems (withProperties (typed schema)))"
proof -
  have "fst ` set (withItems (withProperties (typed schema)))
      \<subseteq> insert ''items'' (insert ''properties'' (insert ''type'' (fst ` set schema)))"
    using keys_withItems [of "withProperties (typed schema)"]
      keys_withProperties [of "typed schema"] keys_typed [of schema]
    by (meson insert_mono subset_trans)
  moreover have "insert ''items'' (insert ''properties'' (insert ''type'' (fst ` set schema)))
      \<subseteq> set ALLOWED_SCHEMA_FIELDS"
    using assms allowed_names by (simp add: keysAllowed_def)
  ultimately have "fst ` set (withItems (withProperties (typed schema)))
      \<subseteq> set ALLOWED_SCHEMA_FIELDS"
    by (rule subset_trans)
  moreover have "truthyOpt (map_of (withItems (withProperties (typed schema))) ''type'')"
    by (simp add: map_of_withItems map_of_withProperties map_of_typed truthyOpt_def
        inferType_nonempty)
  ultimately show ?thesis
    by (auto simp: allowedAndTyped_def list_all_iff truthyOpt_def ALLOWED_SCHEMA_FIELDS_def
        split: option.splits)
qed

lemma ensure_nodes:
  "allNodes keysAllowed j \<Longrightarrow> allNodes allowedAndTyped (ensureSchemaType j)"
proof (induction j rule: measure_induct_rule [of size])
  case (less j)
  show ?case
  proof (cases j)
    case (JArr xs)
    with less.prems have "\<forall>x\<in>set xs. allNodes keysAllowed x" by (simp add: allNodes_JArr)
    moreover have "\<forall>x\<in>set xs. size x < size j" using JArr size_element by blast
    ultimately have "\<forall>x\<in>set xs. allNodes allowedAndTyped (ensureSchemaType x)"
      using less.IH by blast
    with JArr show ?thesis by (simp add: allNodes_JArr)
  next
    case (JObj schema)
    let ?out = "withItems (withProperties (typed schema))"
    from less.prems JObj have k: "keysAllowed schema"
      and pr: "\<And>p e. map_of schema ''properties'' = Some p \<Longrightarrow> e \<in> set (ownEntries p)
                 \<Longrightarrow> allNodes keysAllowed (snd e)"
      and it: "\<And>i. map_of schema ''items'' = Some i \<Longrightarrow> allNodes keysAllowed i"
      by (simp_all add: allNodes_JObj)
    have 1: "allowedAndTyped ?out" using k by (rule allowedAndTyped_ensured)
    have 2: "allNodes allowedAndTyped (snd e)"
      if m: "map_of ?out ''properties'' = Some p" and e: "e \<in> set (ownEntries p)" for p e
    proof (cases "map_of schema ''properties''")
      case None
      with m show ?thesis by (simp add: map_of_withItems map_of_withProperties map_of_typed)
    next
      case (Some p0)
      show ?thesis
      proof (cases "truthy p0 \<and> isObjectType p0")
        case True
        with m Some have "p = JObj (map (\<lambda>e. (fst e, ensureSchemaType (snd e))) (ownEntries p0))"
          by (simp add: map_of_withItems map_of_withProperties map_of_typed)
        with e obtain e0 where e0: "e0 \<in> set (ownEntries p0)"
          and "snd e = ensureSchemaType (snd e0)" by auto
        moreover from Some e0 have "size (snd e0) < size j"
          using in_measure_props [of schema "''properties''" p0 e0] JObj by simp
        ultimately show ?thesis using less.IH pr [OF Some e0] by simp
      next
        case False
        with m Some have "p = p0"
          by (auto simp: map_of_withItems map_of_withProperties map_of_typed)
        with False e show ?thesis using ownEntries_not_object by fastforce
      qed
    qed
    have 3: "allNodes allowedAndTyped i" if m: "map_of ?out ''items'' = Some i" for i
    proof (cases "map_of schema ''items''")
      case None
      with m show ?thesis by (simp add: map_of_withItems map_of_withProperties map_of_typed)
    next
      case (Some i0)
      show ?thesis
      proof (cases "truthy i0")
        case True
        with m Some have "i = ensureSchemaType i0"
          by (simp add: map_of_withItems map_of_withProperties map_of_typed)
        moreover from Some have "size i0 < size j"
          using in_measure_value [of schema "''items''" i0] JObj by simp
        ultimately show ?thesis using less.IH it [OF Some] by simp
      next
        case False
        with m Some have "i = i0"
          by (simp add: map_of_withItems map_of_withProperties map_of_typed)
        with False show ?thesis by (simp add: allNodes_def nodes_falsy)
      qed
    qed
    show ?thesis
      unfolding JObj ensureSchemaType_steps allNodes_JObj
    proof (intro conjI allI impI ballI)
      show "allowedAndTyped ?out" by (rule 1)
    next
      fix p e
      assume "map_of ?out ''properties'' = Some p" and "e \<in> set (ownEntries p)"
      then show "allNodes allowedAndTyped (snd e)" by (rule 2)
    next
      fix i
      assume "map_of ?out ''items'' = Some i"
      then show "allNodes allowedAndTyped i" by (rule 3)
    qed
  qed (simp_all add: allNodes_def)
qed

lemma keepField_result:
  assumes "keepField f kv = Inr fl" and "(k, v) \<in> set fl"
  shows "k = fst kv \<and> k \<in> set ALLOWED_SCHEMA_FIELDS \<and> fl = [(k, v)]"
  using assms by (auto simp: keepField_def split: if_splits sum.splits)

lemma keepAllowed_entry:
  assumes "keepAllowed f w = Inr clean" and "(k, v) \<in> set clean"
  shows "k \<in> set ALLOWED_SCHEMA_FIELDS
    \<and> (\<exists>v0. (k, v0) \<in> set w \<and> keepField f (k, v0) = Inr [(k, v)])"
proof -
  from assms(1) obtain added where t: "traverse (keepField f) w = Inr added"
    and c: "clean = concat added"
    by (auto simp: keepAllowed_def split: sum.splits)
  from assms(2) c obtain fl where fl: "fl \<in> set added" and kv: "(k, v) \<in> set fl" by auto
  from traverse_Inr_elem [OF t fl] obtain e where e: "e \<in> set w"
    and r: "keepField f e = Inr fl" by blast
  from keepField_result [OF r kv] have "k = fst e" and "k \<in> set ALLOWED_SCHEMA_FIELDS"
    and "fl = [(k, v)]" by blast+
  with e r show ?thesis by (metis prod.collapse)
qed

lemma keepField_properties:
  assumes "keepField f (''properties'', v0) = Inr [(''properties'', p)]"
  shows "(\<not> isObjectType v0 \<and> p = v0)
    \<or> (\<exists>ps. p = JObj ps
          \<and> traverse (\<lambda>e. case f (snd e) of Inl x \<Rightarrow> Inl x | Inr v \<Rightarrow> Inr (fst e, v))
               (ownEntries v0) = Inr ps)"
  using assms by (auto simp: keepField_def allowed_names split: if_splits sum.splits)

lemma keepField_items:
  assumes "keepField f (''items'', v0) = Inr [(''items'', i)]"
  shows "f v0 = Inr i"
  using assms by (auto simp: keepField_def allowed_names split: if_splits sum.splits)

lemma keysAllowed_keepAllowed: "keepAllowed f w = Inr clean \<Longrightarrow> keysAllowed clean"
  using keepAllowed_entry unfolding keysAllowed_def by fastforce

lemma sanitizeSchema_JObj:
  assumes "sanitizeSchema (JObj kvs) = Inr out"
  obtains working clean where "flattenUnion kvs = Inr working"
    and "keepAllowed sanitizeSchema working = Inr clean" and "out = JObj clean"
  using assms by (auto split: sum.splits)

lemma sanitize_nodes:
  "sanitizeSchema j = Inr out \<Longrightarrow> allNodes keysAllowed out"
proof (induction j arbitrary: out rule: measure_induct_rule [of size])
  case (less j)
  show ?case
  proof (cases j)
    case (JArr xs)
    with less.prems obtain ys where t: "traverse sanitizeSchema xs = Inr ys"
      and out: "out = JArr ys" by (auto split: sum.splits)
    have "allNodes keysAllowed y" if "y \<in> set ys" for y
    proof -
      from traverse_Inr_elem [OF t that] obtain x where "x \<in> set xs"
        and "sanitizeSchema x = Inr y" by blast
      moreover then have "size x < size j" using JArr size_element by blast
      ultimately show ?thesis using less.IH by blast
    qed
    with out show ?thesis by (simp add: allNodes_JArr)
  next
    case (JObj kvs)
    with less.prems obtain working clean where f: "flattenUnion kvs = Inr working"
      and c: "keepAllowed sanitizeSchema working = Inr clean" and out: "out = JObj clean"
      using sanitizeSchema_JObj by blast
    have small: "size v0 < size j" if "(k, v0) \<in> set working" for k v0
      using size_flattenUnion [OF f that] JObj by simp
    have 1: "keysAllowed clean" using c by (rule keysAllowed_keepAllowed)
    have 2: "allNodes keysAllowed (snd e)"
      if m: "map_of clean ''properties'' = Some p" and e: "e \<in> set (ownEntries p)" for p e
    proof -
      from m have "(''properties'', p) \<in> set clean" by (rule map_of_SomeD)
      from keepAllowed_entry [OF c this] obtain v0 where v0: "(''properties'', v0) \<in> set working"
        and k: "keepField sanitizeSchema (''properties'', v0) = Inr [(''properties'', p)]"
        by blast
      from keepField_properties [OF k] show ?thesis
      proof
        assume "\<not> isObjectType v0 \<and> p = v0"
        with e show ?thesis using ownEntries_not_object by fastforce
      next
        assume "\<exists>ps. p = JObj ps
          \<and> traverse (\<lambda>e. case sanitizeSchema (snd e) of Inl x \<Rightarrow> Inl x
                                                        | Inr v \<Rightarrow> Inr (fst e, v))
               (ownEntries v0) = Inr ps"
        then obtain ps where p: "p = JObj ps"
          and t: "traverse (\<lambda>e. case sanitizeSchema (snd e) of Inl x \<Rightarrow> Inl x
                                                           | Inr v \<Rightarrow> Inr (fst e, v))
               (ownEntries v0) = Inr ps" by blast
        from e p have "e \<in> set ps" by simp
        from traverse_Inr_elem [OF t this] obtain e0 where e0: "e0 \<in> set (ownEntries v0)"
          and r: "(case sanitizeSchema (snd e0) of Inl x \<Rightarrow> Inl x
                   | Inr v \<Rightarrow> Inr (fst e0, v)) = Inr e" by blast
        from r have s: "sanitizeSchema (snd e0) = Inr (snd e)" by (auto split: sum.splits)
        from e0 have "size (snd e0) < size v0"
          using size_ownEntries [of "fst e0" "snd e0" v0] by simp
        with small [OF v0] have "size (snd e0) < size j" by simp
        with s show ?thesis using less.IH by blast
      qed
    qed
    have 3: "allNodes keysAllowed i" if m: "map_of clean ''items'' = Some i" for i
    proof -
      from m have "(''items'', i) \<in> set clean" by (rule map_of_SomeD)
      from keepAllowed_entry [OF c this] obtain v0 where v0: "(''items'', v0) \<in> set working"
        and k: "keepField sanitizeSchema (''items'', v0) = Inr [(''items'', i)]"
        by blast
      from keepField_items [OF k] small [OF v0] show ?thesis using less.IH by blast
    qed
    show ?thesis
      unfolding out allNodes_JObj
    proof (intro conjI allI impI ballI)
      show "keysAllowed clean" by (rule 1)
    next
      fix p e
      assume "map_of clean ''properties'' = Some p" and "e \<in> set (ownEntries p)"
      then show "allNodes keysAllowed (snd e)" by (rule 2)
    next
      fix i
      assume "map_of clean ''items'' = Some i"
      then show "allNodes keysAllowed i" by (rule 3)
    qed
  qed (use less.prems in \<open>auto simp: allNodes_def\<close>)
qed

lemma those_map_Some:
  "(\<And>x. x \<in> set xs \<Longrightarrow> \<exists>y. f x = Some y) \<Longrightarrow> \<exists>ys. those (map f xs) = Some ys"
proof (induction xs)
  case Nil
  show ?case by simp
next
  case (Cons x xs)
  from Cons.prems obtain y where y: "f x = Some y" by auto
  from Cons have "\<exists>ys. those (map f xs) = Some ys" by simp
  then obtain ys where "those (map f xs) = Some ys" ..
  with y show ?case by simp
qed

text \<open>
  The sanitizer's input is inside the model whenever no object of the schema has a
  member named \<^verbatim>\<open>__proto__\<close>.
\<close>

lemma stripDollarSchema_total: "protoFree j \<Longrightarrow> \<exists>s. stripDollarSchema j = Some s"
proof (induction j rule: measure_induct_rule [of size])
  case (less j)
  show ?case
  proof (cases j)
    case (JArr xs)
    have "\<exists>y. stripDollarSchema x = Some y" if "x \<in> set xs" for x
    proof -
      from that JArr have "size x < size j" using size_element by blast
      moreover from that JArr less.prems have "protoFree x" by (simp add: list_all_iff)
      ultimately show ?thesis by (rule less.IH)
    qed
    then have "\<exists>ys. those (map stripDollarSchema xs) = Some ys" by (rule those_map_Some)
    with JArr show ?thesis by auto
  next
    case (JObj kvs)
    let ?g = "\<lambda>kv. if startsWith (fst kv) ''$'' then Some []
                    else if fst kv = ''__proto__'' then
                      (if isObjectType (snd kv) \<and> snd kv \<noteq> JNull then None else Some [])
                    else (case stripDollarSchema (snd kv) of
                            None \<Rightarrow> None
                          | Some v \<Rightarrow> Some [(fst kv, v)])"
    have "\<exists>y. ?g kv = Some y" if "kv \<in> set kvs" for kv
    proof -
      from that JObj have "size (snd kv) < size j"
        using size_entry [of "fst kv" "snd kv" kvs] by simp
      moreover from that JObj less.prems have p: "fst kv \<noteq> ''__proto__''"
        and "protoFree (snd kv)" by (simp_all add: list_all_iff)
      ultimately have "\<exists>y. stripDollarSchema (snd kv) = Some y" by (intro less.IH)
      then obtain y where "stripDollarSchema (snd kv) = Some y" ..
      with p show ?thesis by simp
    qed
    then have "\<exists>ys. those (map ?g kvs) = Some ys" by (rule those_map_Some)
    then obtain ys where "those (map ?g kvs) = Some ys" ..
    with JObj show ?thesis by simp
  qed simp_all
qed

lemma cleaned_nodes:
  assumes "cleaned input_schema = Some (Inr out)"
  shows "list_all allowedAndTyped (objectNodes out)"
proof -
  from assms obtain stripped c where "sanitizeSchema stripped = Inr c"
    and out: "out = ensureSchemaType c"
    by (auto simp: cleaned_def split: option.splits sum.splits)
  then have "allNodes keysAllowed c" by (simp add: sanitize_nodes)
  then have "allNodes allowedAndTyped out" unfolding out by (rule ensure_nodes)
  then show ?thesis by (simp add: allNodes_def list_all_iff)
qed

lemma ensured_type:
  "map_of (withItems (withProperties (typed node))) ''type'' =
    (if truthyOpt (map_of node ''type'') then map_of node ''type''
     else Some (JStr (inferType node)))"
  by (simp add: map_of_withItems map_of_withProperties map_of_typed)

lemma ensured_properties:
  "map_of node ''properties'' = Some (JObj ps) \<Longrightarrow>
   map_of (withItems (withProperties (typed node))) ''properties''
     = Some (JObj (map (\<lambda>e. (fst e, ensureSchemaType (snd e))) ps))"
  by (simp add: map_of_withItems map_of_withProperties map_of_typed)

lemma ensured_items:
  "map_of node ''items'' = Some i \<Longrightarrow> truthy i \<Longrightarrow>
   map_of (withItems (withProperties (typed node))) ''items'' = Some (ensureSchemaType i)"
  by (simp add: map_of_withItems map_of_withProperties map_of_typed)

lemma not_object_unchanged:
  "\<not> isObjectType v \<or> v = JNull \<Longrightarrow>
   stripDollarSchema v = Some v \<and> sanitizeSchema v = Inr v \<and> ensureSchemaType v = v"
  by (cases v) simp_all

text \<open>
  C6 (the code at the failing inputs). The claim gives every node of the emitted schema
  a non-empty \<^verbatim>\<open>type\<close>. The normalizer returns a value that is not an object as it
  is, so the node \<^verbatim>\<open>true\<close> under \<^verbatim>\<open>properties\<close> is emitted without any \<^verbatim>\<open>type\<close>;
  and it keeps every truthy \<^verbatim>\<open>type\<close>, so the empty array stays as the \<^verbatim>\<open>type\<close> of
  the second schema.
\<close>

theorem untyped_node_counterexample:
  "cleaned (Some (JObj [(''type'', JStr ''object''),
                        (''properties'', JObj [(''x'', JBool True)])]))
     = Some (Inr (JObj [(''type'', JStr ''object''),
                        (''properties'', JObj [(''x'', JBool True)])]))
   \<and> cleaned (Some (JObj [(''type'', JArr [])])) = Some (Inr (JObj [(''type'', JArr [])]))"
  by code_simp

text \<open>
  C6, amended. For every input tool schema inside the model for which a schema is
  emitted (the normalizer throws on \<^verbatim>\<open>properties: null\<close> and on a union that is not
  an array), every object node of the emitted schema has only fields from the allowed
  set and a \<^verbatim>\<open>type\<close> that is truthy in JavaScript's sense. A value that is not an
  object, or is \<^verbatim>\<open>null\<close>, passes through every stage unchanged, so at a node position
  it is emitted without a \<^verbatim>\<open>type\<close>. An object node whose \<^verbatim>\<open>type\<close> is missing or
  falsy gets \<^verbatim>\<open>object\<close> if it has truthy \<^verbatim>\<open>properties\<close>, else \<^verbatim>\<open>array\<close> if it has
  truthy \<^verbatim>\<open>items\<close>, else \<^verbatim>\<open>string\<close> if it has a truthy \<^verbatim>\<open>enum\<close>, else \<^verbatim>\<open>object\<close>; a
  truthy \<^verbatim>\<open>type\<close> is kept; and the same inference is applied to every value under an
  object \<^verbatim>\<open>properties\<close> and to a truthy \<^verbatim>\<open>items\<close>. The schema
  \<^verbatim>\<open>{properties: {x: {type: "string"}}}\<close> gets \<^verbatim>\<open>type: "object"\<close>.
\<close>

theorem normalized_schema_nodes:
  "(cleaned input_schema = Some (Inr out) \<longrightarrow> list_all allowedAndTyped (objectNodes out))
   \<and> (\<not> isObjectType v \<or> v = JNull \<longrightarrow>
        stripDollarSchema v = Some v \<and> sanitizeSchema v = Inr v \<and> ensureSchemaType v = v)
   \<and> (\<exists>typedNode. ensureSchemaType (JObj node) = JObj typedNode
        \<and> (\<not> truthyOpt (map_of node ''type'') \<longrightarrow>
              map_of typedNode ''type'' =
                Some (JStr (if truthyOpt (map_of node ''properties'') then ''object''
                            else if truthyOpt (map_of node ''items'') then ''array''
                            else if truthyOpt (map_of node ''enum'') then ''string''
                            else ''object'')))
        \<and> (truthyOpt (map_of node ''type'') \<longrightarrow>
              map_of typedNode ''type'' = map_of node ''type'')
        \<and> (\<forall>ps. map_of node ''properties'' = Some (JObj ps) \<longrightarrow>
              map_of typedNode ''properties''
                = Some (JObj (map (\<lambda>e. (fst e, ensureSchemaType (snd e))) ps)))
        \<and> (\<forall>i. map_of node ''items'' = Some i \<and> truthy i \<longrightarrow>
              map_of typedNode ''items'' = Some (ensureSchemaType i)))
   \<and> cleaned (Some (JObj [(''properties'', JObj [(''x'', JObj [(''type'', JStr ''string'')])])]))
       = Some (Inr (JObj [(''properties'', JObj [(''x'', JObj [(''type'', JStr ''string'')])]),
                          (''type'', JStr ''object'')]))"
proof (intro conjI)
  show "cleaned input_schema = Some (Inr out) \<longrightarrow> list_all allowedAndTyped (objectNodes out)"
    using cleaned_nodes by blast
next
  show "\<not> isObjectType v \<or> v = JNull \<longrightarrow>
        stripDollarSchema v = Some v \<and> sanitizeSchema v = Inr v \<and> ensureSchemaType v = v"
    using not_object_unchanged by blast
next
  show "\<exists>typedNode. ensureSchemaType (JObj node) = JObj typedNode
        \<and> (\<not> truthyOpt (map_of node ''type'') \<longrightarrow>
              map_of typedNode ''type'' =
                Some (JStr (if truthyOpt (map_of node ''properties'') then ''object''
                            else if truthyOpt (map_of node ''items'') then ''array''
                            else if truthyOpt (map_of node ''enum'') then ''string''
                            else ''object'')))
        \<and> (truthyOpt (map_of node ''type'') \<longrightarrow>
              map_of typedNode ''type'' = map_of node ''type'')
        \<and> (\<forall>ps. map_of node ''properties'' = Some (JObj ps) \<longrightarrow>
              map_of typedNode ''properties''
                = Some (JObj (map (\<lambda>e. (fst e, ensureSchemaType (snd e))) ps)))
        \<and> (\<forall>i. map_of node ''items'' = Some i \<and> truthy i \<longrightarrow>
              map_of typedNode ''items'' = Some (ensureSchemaType i))"
  proof (intro exI conjI allI impI)
    show "ensureSchemaType (JObj node) = JObj (withItems (withProperties (typed node)))"
      by (rule ensureSchemaType_steps)
  next
    assume "\<not> truthyOpt (map_of node ''type'')"
    then show "map_of (withItems (withProperties (typed node))) ''type'' =
                Some (JStr (if truthyOpt (map_of node ''properties'') then ''object''
                            else if truthyOpt (map_of node ''items'') then ''array''
                            else if truthyOpt (map_of node ''enum'') then ''string''
                            else ''object''))"
      by (simp add: ensured_type inferType_def)
  next
    assume "truthyOpt (map_of node ''type'')"
    then show "map_of (withItems (withProperties (typed node))) ''type'' = map_of node ''type''"
      by (simp add: ensured_type)
  next
    fix ps
    assume "map_of node ''properties'' = Some (JObj ps)"
    then show "map_of (withItems (withProperties (typed node))) ''properties''
                = Some (JObj (map (\<lambda>e. (fst e, ensureSchemaType (snd e))) ps))"
      by (rule ensured_properties)
  next
    fix i
    assume "map_of node ''items'' = Some i \<and> truthy i"
    then show "map_of (withItems (withProperties (typed node))) ''items''
                = Some (ensureSchemaType i)"
      by (simp add: ensured_items)
  qed
next
  show "cleaned (Some (JObj [(''properties'', JObj [(''x'', JObj [(''type'', JStr ''string'')])])]))
       = Some (Inr (JObj [(''properties'', JObj [(''x'', JObj [(''type'', JStr ''string'')])]),
                          (''type'', JStr ''object'')]))"
    by code_simp
qed

text \<open>
  An instance: a schema with a meta key, a union, a nested array schema and a field
  outside the allowed set; every object node of the emitted schema is as stated.
\<close>

theorem normalized_schema_nodes_witness:
  "cleaned (Some (JObj
      [(''$schema'', JStr ''http://json-schema.org/draft-07/schema#''),
       (''properties'', JObj
          [(''mode'', JObj [(''oneOf'', JArr [JObj [(''type'', JStr ''string'')],
                                             JObj [(''enum'', JArr [JStr ''a'', JStr ''b''])]]),
                           (''description'', JStr ''how''),
                           (''default'', JStr ''a'')]),
           (''paths'', JObj [(''items'', JObj [(''minLength'', JNum 1)])])]),
       (''additionalProperties'', JBool False)]))
   = Some (Inr (JObj
      [(''properties'', JObj
          [(''mode'', JObj [(''enum'', JArr [JStr ''a'', JStr ''b'']),
                           (''description'', JStr ''how''),
                           (''type'', JStr ''string'')]),
           (''paths'', JObj [(''items'', JObj [(''type'', JStr ''object'')]),
                            (''type'', JStr ''array'')])]),
       (''type'', JStr ''object'')]))
   \<and> list_all allowedAndTyped (objectNodes (JObj
      [(''properties'', JObj
          [(''mode'', JObj [(''enum'', JArr [JStr ''a'', JStr ''b'']),
                           (''description'', JStr ''how''),
                           (''type'', JStr ''string'')]),
           (''paths'', JObj [(''items'', JObj [(''type'', JStr ''object'')]),
                            (''type'', JStr ''array'')])]),
       (''type'', JStr ''object'')]))"
proof -
  have e: "cleaned (Some (JObj
      [(''$schema'', JStr ''http://json-schema.org/draft-07/schema#''),
       (''properties'', JObj
          [(''mode'', JObj [(''oneOf'', JArr [JObj [(''type'', JStr ''string'')],
                                             JObj [(''enum'', JArr [JStr ''a'', JStr ''b''])]]),
                           (''description'', JStr ''how''),
                           (''default'', JStr ''a'')]),
           (''paths'', JObj [(''items'', JObj [(''minLength'', JNum 1)])])]),
       (''additionalProperties'', JBool False)]))
   = Some (Inr (JObj
      [(''properties'', JObj
          [(''mode'', JObj [(''enum'', JArr [JStr ''a'', JStr ''b'']),
                           (''description'', JStr ''how''),
                           (''type'', JStr ''string'')]),
           (''paths'', JObj [(''items'', JObj [(''type'', JStr ''object'')]),
                            (''type'', JStr ''array'')])]),
       (''type'', JStr ''object'')]))"
    by code_simp
  from e normalized_schema_nodes [THEN conjunct1, THEN mp, OF e] show ?thesis
    by (rule conjI)
qed











end
